theory Spec2Isabelle
  imports Complex_Main "HOL-Library.AList"
begin

section \<open>Data model (types.ts)\<close>

text \<open>
  JavaScript numbers are modelled as rationals: the embedding is the scheduler in exact
  arithmetic. A calendar date is the number of its day (\<open>addDays d 1\<close> is \<open>d + 1\<close>);
  \<open>parse\<close> and \<open>format\<close> with the pattern \<open>yyyy-MM-dd\<close> translate between that
  number and its text and are left implicit.

  A time text \<open>HH:MM\<close> is kept as the two numbers that
  \<open>time.split(':').map(Number)\<close> reads from it. The random \<open>id\<close> of a block
  (\<open>uuidv4()\<close>) is not part of the model.

  Fields keep their names where these are free: \<open>id\<close> and \<open>name\<close> of a skill are
  \<open>skill_id\<close> and \<open>skill_name\<close>; \<open>start\<close>, \<open>end\<close> and \<open>type\<close> of a block are
  \<open>b_start\<close>, \<open>b_end\<close> and \<open>b_type\<close>; \<open>start\<close> of a lunch is \<open>lunch_start\<close>; the fields
  of a summary entry that a block has too carry the prefix \<open>s_\<close>. An optional field
  is an \<open>option\<close>.
\<close>

datatype priority = High | Medium | Low

record skill =
  skill_id :: string
  skill_name :: string
  priority :: priority
  estHours :: rat

datatype hhmm = HHMM (hh: rat) (mm: rat)

record lunch_t =
  lunch_start :: hhmm
  duration :: rat

datatype mode = Daily | Monthly

type_synonym date = int

record settings =
  mode :: mode
  dailyHours :: rat
  startDate :: date
  endDate :: date
  startTime :: hhmm
  endTime :: hhmm
  workBlockMins :: rat
  breakMins :: rat
  lunch :: "lunch_t option"

datatype blockType = Work | Break | Lunch | Buffer

record scheduleBlock =
  b_start :: hhmm
  b_end :: hhmm
  b_type :: blockType
  skillId :: "string option"
  skillName :: "string option"
  minutes :: rat
  completed :: "bool option"

record scheduleDay =
  date :: date
  blocks :: "scheduleBlock list"

record scheduleSummary =
  s_skillId :: string
  s_skillName :: string
  s_minutes :: rat
  percent :: rat

text \<open>The three \<open>throw new Error(...)\<close> of \<open>generateSchedule\<close>, by the names the
  specification gives them.\<close>

datatype error =
    InvalidRangeError    \<comment> \<open>"Date range is invalid. Please select a valid start and end date."\<close>
  | InvalidWindowError   \<comment> \<open>"End time must be after start time."\<close>
  | EmptyScheduleError   \<comment> \<open>"Could not generate any schedule. Check your settings. ..."\<close>

section \<open>JavaScript \<open>Map\<close> as an insertion-ordered association list\<close>

type_synonym nmap = "(string \<times> rat) list"

text \<open>\<open>new Map(pairs)\<close>: the pairs are set from left to right; a key set again keeps its
  place and takes the new value, which is what \<open>AList.update\<close> does.\<close>

definition newMap :: "(string \<times> rat) list \<Rightarrow> nmap" where
  "newMap kvs = foldl (\<lambda>m kv. AList.update (fst kv) (snd kv) m) [] kvs"

text \<open>\<open>m.get(k) ?? 0\<close> and \<open>m.get(k) || 0\<close>.\<close>

definition getOr0 :: "nmap \<Rightarrow> string \<Rightarrow> rat" where
  "getOr0 m k = (case map_of m k of None \<Rightarrow> 0 | Some v \<Rightarrow> v)"

definition mapValues :: "nmap \<Rightarrow> rat list" where
  "mapValues m = map snd m"

section \<open>Time utilities\<close>

definition PRIORITY_WEIGHTS :: "priority \<Rightarrow> rat" where
  "PRIORITY_WEIGHTS p = (case p of High \<Rightarrow> 3 | Medium \<Rightarrow> 2 | Low \<Rightarrow> 1)"

definition timeToMinutes :: "hhmm \<Rightarrow> rat" where
  "timeToMinutes t = hh t * 60 + mm t"

text \<open>The remainder operator \<open>%\<close> of JavaScript truncates the quotient towards zero.\<close>

definition js_rem :: "rat \<Rightarrow> rat \<Rightarrow> rat" where
  "js_rem a b = a - b * of_int (if 0 \<le> a / b then \<lfloor>a / b\<rfloor> else \<lceil>a / b\<rceil>)"

text \<open>\<open>padStart(2, '0')\<close> only adds a leading zero to the text; the number read back from
  the field is the same.\<close>

definition minutesToTime :: "rat \<Rightarrow> hhmm" where
  "minutesToTime m = HHMM (of_int \<lfloor>m / 60\<rfloor>) (js_rem m 60)"

text \<open>\<open>Math.round\<close> rounds to the nearest integer, a half towards plus infinity.\<close>

definition math_round :: "rat \<Rightarrow> rat" where
  "math_round x = of_int \<lfloor>x + 1 / 2\<rfloor>"

definition roundTo5 :: "rat \<Rightarrow> rat" where
  "roundTo5 num = math_round (num / 5) * 5"

function getDatesInRange :: "date \<Rightarrow> date \<Rightarrow> date list" where
  "getDatesInRange currentDate lastDate =
     (if currentDate \<le> lastDate then currentDate # getDatesInRange (currentDate + 1) lastDate
      else [])"
  by pat_completeness auto
termination
  by (relation "measure (\<lambda>(c, e). nat (e + 1 - c))") auto

declare getDatesInRange.simps [simp del]

section \<open>The day's block-emission loop\<close>

record loop_state =
  ls_blocks :: "scheduleBlock list"
  currentTime :: rat
  queueIndex :: nat
  dailyAllocation :: nmap
  totalAllocatedToday :: rat
  remainingHours :: nmap
  totalMinutesPerSkill :: nmap

definition lunchBlock :: "lunch_t \<Rightarrow> scheduleBlock" where
  "lunchBlock l =
     \<lparr> b_start = minutesToTime (timeToMinutes (lunch_start l)),
       b_end = minutesToTime (timeToMinutes (lunch_start l) + duration l),
       b_type = Lunch, skillId = None, skillName = None,
       minutes = duration l, completed = None \<rparr>"

definition workBlock :: "skill \<Rightarrow> rat \<Rightarrow> rat \<Rightarrow> scheduleBlock" where
  "workBlock sk t d =
     \<lparr> b_start = minutesToTime t, b_end = minutesToTime (t + d),
       b_type = Work, skillId = Some (skill_id sk), skillName = Some (skill_name sk),
       minutes = d, completed = Some False \<rparr>"

definition plainBlock :: "blockType \<Rightarrow> rat \<Rightarrow> rat \<Rightarrow> rat \<Rightarrow> scheduleBlock" where
  "plainBlock ty t e d =
     \<lparr> b_start = minutesToTime t, b_end = minutesToTime e,
       b_type = ty, skillId = None, skillName = None,
       minutes = d, completed = None \<rparr>"

text \<open>The lunch test at the head of the loop body: the configured lunch when
  \<open>currentTime\<close> lies in \<open>[lunchStart, lunchEnd)\<close>.\<close>

definition lunchHit :: "lunch_t option \<Rightarrow> rat \<Rightarrow> lunch_t option" where
  "lunchHit lo t =
     (case lo of
        None \<Rightarrow> None
      | Some l \<Rightarrow>
          (if timeToMinutes (lunch_start l) \<le> t
              \<and> t < timeToMinutes (lunch_start l) + duration l
           then Some l else None))"

text \<open>The four updates that follow the emission of a work block of \<open>d\<close> minutes for
  skill \<open>sk\<close>, whose daily allocation left is \<open>skillTimeLeft\<close>.\<close>

definition emitWork :: "skill \<Rightarrow> rat \<Rightarrow> rat \<Rightarrow> loop_state \<Rightarrow> loop_state" where
  "emitWork sk skillTimeLeft d s =
     s \<lparr> ls_blocks := ls_blocks s @ [workBlock sk (currentTime s) d],
         dailyAllocation := AList.update (skill_id sk) (skillTimeLeft - d) (dailyAllocation s),
         totalAllocatedToday := totalAllocatedToday s - d,
         totalMinutesPerSkill :=
           AList.update (skill_id sk) (getOr0 (totalMinutesPerSkill s) (skill_id sk) + d)
             (totalMinutesPerSkill s),
         remainingHours :=
           AList.update (skill_id sk) (getOr0 (remainingHours s) (skill_id sk) - d)
             (remainingHours s) \<rparr>"

text \<open>The lunch branch: the lunch block is pushed unless the last block pushed is one,
  and the cursor jumps to the end of lunch.\<close>

definition lunchStep :: "lunch_t \<Rightarrow> loop_state \<Rightarrow> loop_state" where
  "lunchStep l s =
     s \<lparr> ls_blocks :=
           (if ls_blocks s = [] \<or> b_type (last (ls_blocks s)) \<noteq> Lunch
            then ls_blocks s @ [lunchBlock l] else ls_blocks s),
         currentTime := timeToMinutes (lunch_start l) + duration l \<rparr>"

text \<open>The break that follows a full work block.\<close>

definition takeBreak :: "settings \<Rightarrow> rat \<Rightarrow> loop_state \<Rightarrow> loop_state" where
  "takeBreak st windowEnd s =
     (if breakMins st > 0 \<and> currentTime s + breakMins st \<le> windowEnd
         \<and> totalAllocatedToday s > 0
      then s \<lparr> ls_blocks := ls_blocks s @
                  [plainBlock Break (currentTime s) (currentTime s + breakMins st)
                     (breakMins st)],
                currentTime := currentTime s + breakMins st \<rparr>
      else s)"

text \<open>One pass through the body of the \<open>while\<close> loop. \<open>Inl\<close> is leaving the loop by
  \<open>break\<close>, \<open>Inr\<close> is going back to the loop test (by \<open>continue\<close> or by reaching the end of
  the body). The queue is never empty here: a day is entered only with an active skill.
  \<open>skillTimeLeft\<close> is \<open>dailyAllocation.get(skill.id)\<close>; the test
  \<open>!skillTimeLeft || skillTimeLeft <= 0\<close> holds for a missing entry, for zero and for a
  negative number, which is \<open>getOr0 \<dots> \<le> 0\<close>.\<close>

definition loop_body ::
  "settings \<Rightarrow> rat \<Rightarrow> skill list \<Rightarrow> loop_state \<Rightarrow> loop_state + loop_state" where
  "loop_body st windowEnd skillQueue s =
     (case lunchHit (lunch st) (currentTime s) of
        Some l \<Rightarrow> Inr (lunchStep l s)
      | None \<Rightarrow>
          (let sk = skillQueue ! (queueIndex s mod length skillQueue);
               s1 = s \<lparr> queueIndex := queueIndex s + 1 \<rparr>;
               skillTimeLeft = getOr0 (dailyAllocation s) (skill_id sk)
           in if skillTimeLeft \<le> 0 then
                (if list_all (\<lambda>t. t \<le> 0) (mapValues (dailyAllocation s)) then Inl s1
                 else Inr s1)
              else
                (let blockDuration = min (workBlockMins st) skillTimeLeft
                 in if currentTime s + blockDuration > windowEnd then
                      (let remainingWindowTime = roundTo5 (windowEnd - currentTime s)
                       in Inl (if remainingWindowTime > 0
                               then emitWork sk skillTimeLeft remainingWindowTime s1
                               else s1))
                    else
                      Inr (takeBreak st windowEnd
                             ((emitWork sk skillTimeLeft blockDuration s1)
                                \<lparr> currentTime := currentTime s + blockDuration \<rparr>)))))"

text \<open>The \<open>while\<close> loop itself. It need not end (a work block of zero minutes never
  advances), so it is a partial function: \<open>None\<close> is a loop that runs forever.\<close>

partial_function (option) while_loop ::
  "settings \<Rightarrow> rat \<Rightarrow> skill list \<Rightarrow> loop_state \<Rightarrow> loop_state option" where
  "while_loop st windowEnd skillQueue s =
     (if currentTime s < windowEnd \<and> totalAllocatedToday s > 0 then
        (case loop_body st windowEnd skillQueue s of
           Inl s' \<Rightarrow> Some s'
         | Inr s' \<Rightarrow> while_loop st windowEnd skillQueue s')
      else Some s)"

declare while_loop.simps [code]

section \<open>One day of the schedule\<close>

definition activeSkills :: "skill list \<Rightarrow> nmap \<Rightarrow> skill list" where
  "activeSkills skills rem = filter (\<lambda>s. getOr0 rem (skill_id s) > 0) skills"

definition totalWeightOf :: "skill list \<Rightarrow> rat" where
  "totalWeightOf active = sum_list (map (\<lambda>s. PRIORITY_WEIGHTS (priority s)) active)"

definition allocatableTimeForDay :: "settings \<Rightarrow> rat" where
  "allocatableTimeForDay st =
     (let windowStart = timeToMinutes (startTime st);
          windowEnd = timeToMinutes (endTime st);
          totalWindowMinutes =
            (case lunch st of
               None \<Rightarrow> windowEnd - windowStart
             | Some l \<Rightarrow> windowEnd - windowStart - duration l)
      in if mode st = Daily then dailyHours st * 60 else totalWindowMinutes)"

definition dailyAllocationFor :: "rat \<Rightarrow> skill list \<Rightarrow> nmap \<Rightarrow> nmap" where
  "dailyAllocationFor allocatable active rem =
     newMap (map (\<lambda>s.
        (let proportionalMinutes =
               (allocatable * PRIORITY_WEIGHTS (priority s)) / totalWeightOf active
         in (skill_id s, roundTo5 (min proportionalMinutes (getOr0 rem (skill_id s)))))) active)"

text \<open>\<open>Array.prototype.sort\<close> is stable, as the insertion sort \<open>sort_key\<close> is; the
  comparator \<open>W[b] - W[a]\<close> orders by descending weight. \<open>push(shift())\<close> moves the
  first skill to the end.\<close>

definition skillQueueFor :: "nat \<Rightarrow> skill list \<Rightarrow> skill list" where
  "skillQueueFor dayIx active =
     (let skillQueue = sort_key (\<lambda>s. - PRIORITY_WEIGHTS (priority s)) active
      in if dayIx > 0 then (case skillQueue of [] \<Rightarrow> [] | x # xs \<Rightarrow> xs @ [x])
         else skillQueue)"

text \<open>The lunch block added after the loop when the loop emitted none.\<close>

definition lunchBackfill :: "settings \<Rightarrow> scheduleBlock list \<Rightarrow> scheduleBlock list" where
  "lunchBackfill st bs =
     (case lunch st of
        None \<Rightarrow> bs
      | Some l \<Rightarrow>
          (if \<not> list_ex (\<lambda>b. b_type b = Lunch) bs
              \<and> timeToMinutes (lunch_start l) \<ge> timeToMinutes (startTime st)
              \<and> timeToMinutes (lunch_start l) < timeToMinutes (endTime st)
           then bs @ [lunchBlock l] else bs))"

text \<open>The \<open>forEach\<close> that copies the sorted blocks into \<open>finalBlocks\<close>, a buffer block
  before each block that starts after \<open>lastBlockEnd\<close>, and the buffer block added after
  the last one.\<close>

fun fillGaps :: "rat \<Rightarrow> rat \<Rightarrow> scheduleBlock list \<Rightarrow> scheduleBlock list" where
  "fillGaps windowEnd lastBlockEnd [] =
     (if lastBlockEnd < windowEnd \<and> windowEnd - lastBlockEnd > 0
      then [plainBlock Buffer lastBlockEnd windowEnd (windowEnd - lastBlockEnd)] else [])"
| "fillGaps windowEnd lastBlockEnd (block # rest) =
     (let blockStart = timeToMinutes (b_start block)
      in (if blockStart > lastBlockEnd \<and> blockStart - lastBlockEnd > 0
          then [plainBlock Buffer lastBlockEnd blockStart (blockStart - lastBlockEnd)]
          else [])
         @ block # fillGaps windowEnd (timeToMinutes (b_end block)) rest)"

definition finishDay :: "settings \<Rightarrow> scheduleBlock list \<Rightarrow> scheduleBlock list" where
  "finishDay st bs =
     fillGaps (timeToMinutes (endTime st)) (timeToMinutes (startTime st))
       (sort_key (\<lambda>b. timeToMinutes (b_start b)) (lunchBackfill st bs))"

definition initLoop :: "settings \<Rightarrow> nmap \<Rightarrow> nmap \<Rightarrow> nmap \<Rightarrow> loop_state" where
  "initLoop st alloc rem tot =
     \<lparr> ls_blocks = [], currentTime = timeToMinutes (startTime st), queueIndex = 0,
       dailyAllocation = alloc, totalAllocatedToday = sum_list (mapValues alloc),
       remainingHours = rem, totalMinutesPerSkill = tot \<rparr>"

text \<open>What one iteration of the \<open>for\<close> loop over the dates does: it throws, it goes to the
  next date (\<open>continue\<close>), it leaves the loop (\<open>break\<close>), or it pushes a day and hands on
  the two maps.\<close>

datatype day_result =
    Thrown error
  | Continued
  | Broke
  | Pushed scheduleDay nmap nmap

definition processDay ::
  "settings \<Rightarrow> skill list \<Rightarrow> nat \<Rightarrow> date \<Rightarrow> nmap \<Rightarrow> nmap \<Rightarrow> day_result option" where
  "processDay st skills dayIx d rem tot =
     (if timeToMinutes (endTime st) - timeToMinutes (startTime st) \<le> 0
      then Some (Thrown InvalidWindowError)
      else if allocatableTimeForDay st \<le> 0 then Some Continued
      else if activeSkills skills rem = [] then Some Broke
      else if totalWeightOf (activeSkills skills rem) = 0 then Some Continued
      else
        (case while_loop st (timeToMinutes (endTime st))
                (skillQueueFor dayIx (activeSkills skills rem))
                (initLoop st
                   (dailyAllocationFor (allocatableTimeForDay st) (activeSkills skills rem) rem)
                   rem tot) of
           None \<Rightarrow> None
         | Some s \<Rightarrow>
             Some (Pushed \<lparr> date = d, blocks = finishDay st (ls_blocks s) \<rparr>
                     (remainingHours s) (totalMinutesPerSkill s))))"

section \<open>The schedule assembler and the summary\<close>

record gen_state =
  generatedSchedule :: "scheduleDay list"
  dayIndex :: nat
  remaining_g :: nmap
  totals_g :: nmap

fun forDates ::
  "settings \<Rightarrow> skill list \<Rightarrow> date list \<Rightarrow> gen_state \<Rightarrow> (error + gen_state) option" where
  "forDates st skills [] g = Some (Inr g)"
| "forDates st skills (d # ds) g =
     (case processDay st skills (dayIndex g) d (remaining_g g) (totals_g g) of
        None \<Rightarrow> None
      | Some (Thrown e) \<Rightarrow> Some (Inl e)
      | Some Continued \<Rightarrow> forDates st skills ds g
      | Some Broke \<Rightarrow> Some (Inr g)
      | Some (Pushed day rem tot) \<Rightarrow>
          forDates st skills ds
            \<lparr> generatedSchedule = generatedSchedule g @ [day], dayIndex = dayIndex g + 1,
              remaining_g = rem, totals_g = tot \<rparr>)"

definition summaryOf :: "skill list \<Rightarrow> nmap \<Rightarrow> scheduleSummary list" where
  "summaryOf skills tot =
     (let grandTotalMinutes = sum_list (mapValues tot)
      in map (\<lambda>s.
           \<lparr> s_skillId = skill_id s, s_skillName = skill_name s,
             s_minutes = getOr0 tot (skill_id s),
             percent = (if grandTotalMinutes > 0
                        then (getOr0 tot (skill_id s) / grandTotalMinutes) * 100 else 0) \<rparr>)
         skills)"

text \<open>The state with which the loop over the dates starts: no day yet, the maps
  \<open>remainingHours\<close> (\<open>estHours * 60\<close> for each skill) and \<open>totalMinutesPerSkill\<close>
  (zero for each skill). The third map of the source, \<open>skillMap\<close>, is never read and is
  left out.\<close>

definition initGen :: "skill list \<Rightarrow> gen_state" where
  "initGen skills =
     \<lparr> generatedSchedule = [], dayIndex = 0,
       remaining_g = newMap (map (\<lambda>s. (skill_id s, estHours s * 60)) skills),
       totals_g = newMap (map (\<lambda>s. (skill_id s, 0)) skills) \<rparr>"

text \<open>\<open>generateSchedule\<close>. The first argument is the date that \<open>new Date()\<close> gives in Daily
  mode. The result is \<open>None\<close> when the call does not return, \<open>Some (Inl e)\<close> when it
  throws and \<open>Some (Inr (schedule, summary))\<close> when it returns.\<close>

definition generateSchedule ::
  "date \<Rightarrow> skill list \<Rightarrow> settings
     \<Rightarrow> (error + scheduleDay list \<times> scheduleSummary list) option" where
  "generateSchedule today skills st =
     (let dates = (if mode st = Monthly then getDatesInRange (startDate st) (endDate st)
                   else [today])
      in if dates = [] \<and> mode st = Monthly then Some (Inl InvalidRangeError)
         else
           (case forDates st skills dates (initGen skills) of
              None \<Rightarrow> None
            | Some (Inl e) \<Rightarrow> Some (Inl e)
            | Some (Inr g) \<Rightarrow>
                (if generatedSchedule g = [] then Some (Inl EmptyScheduleError)
                 else Some (Inr (generatedSchedule g, summaryOf skills (totals_g g))))))"

section \<open>Quantities the properties are stated with\<close>

text \<open>The minutes of the work blocks of a block list that carry the skill id \<open>k\<close>, and
  the same over all the days of a schedule.\<close>

definition workSum :: "string \<Rightarrow> scheduleBlock list \<Rightarrow> rat" where
  "workSum k bs =
     sum_list (map minutes (filter (\<lambda>b. b_type b = Work \<and> skillId b = Some k) bs))"

definition schedWork :: "string \<Rightarrow> scheduleDay list \<Rightarrow> rat" where
  "schedWork k sched = sum_list (map (\<lambda>d. workSum k (blocks d)) sched)"

text \<open>The minutes of all the work blocks, of a block list and of a schedule.\<close>

definition allWork :: "scheduleBlock list \<Rightarrow> rat" where
  "allWork bs = sum_list (map minutes (filter (\<lambda>b. b_type b = Work) bs))"

definition schedAllWork :: "scheduleDay list \<Rightarrow> rat" where
  "schedAllWork sched = sum_list (map (\<lambda>d. allWork (blocks d)) sched)"

definition startMin :: "scheduleBlock \<Rightarrow> rat" where
  "startMin b = timeToMinutes (b_start b)"

definition endMin :: "scheduleBlock \<Rightarrow> rat" where
  "endMin b = timeToMinutes (b_end b)"

definition lunchBlocks :: "scheduleBlock list \<Rightarrow> scheduleBlock list" where
  "lunchBlocks bs = filter (\<lambda>b. b_type b = Lunch) bs"

text \<open>A time text as the form validator accepts it: two digits for an hour from 00 to 23
  and two digits for a minute from 00 to 59.\<close>

definition wellFormedTime :: "hhmm \<Rightarrow> bool" where
  "wellFormedTime t \<longleftrightarrow>
     of_int \<lfloor>hh t\<rfloor> = hh t \<and> 0 \<le> hh t \<and> hh t \<le> 23 \<and>
     of_int \<lfloor>mm t\<rfloor> = mm t \<and> 0 \<le> mm t \<and> mm t \<le> 59"

section \<open>Invariants and examples used in the proofs\<close>

definition acctInv ::
  "(string \<Rightarrow> rat) \<Rightarrow> (string \<Rightarrow> rat) \<Rightarrow> (string \<Rightarrow> rat) \<Rightarrow> loop_state \<Rightarrow> bool" where
  "acctInv A R T s \<longleftrightarrow>
     (\<forall>k. getOr0 (dailyAllocation s) k = A k - workSum k (ls_blocks s)
        \<and> getOr0 (remainingHours s) k = R k - workSum k (ls_blocks s)
        \<and> getOr0 (totalMinutesPerSkill s) k = T k + workSum k (ls_blocks s))"

definition ownerInv :: "skill list \<Rightarrow> scheduleBlock list \<Rightarrow> bool" where
  "ownerInv q bs \<longleftrightarrow>
     (\<forall>b \<in> set bs. b_type b = Work \<longrightarrow> skillId b \<in> Some ` skill_id ` set q)"

definition totalsInv :: "string list \<Rightarrow> rat \<Rightarrow> loop_state \<Rightarrow> bool" where
  "totalsInv K S s \<longleftrightarrow>
     map fst (totalMinutesPerSkill s) = K
     \<and> sum_list (mapValues (totalMinutesPerSkill s)) = S + allWork (ls_blocks s)"

definition workPositive :: "scheduleBlock list \<Rightarrow> bool" where
  "workPositive bs \<longleftrightarrow> (\<forall>b \<in> set bs. b_type b = Work \<longrightarrow> 0 < minutes b)"

definition scenarioA_skills :: "skill list" where
  "scenarioA_skills =
     [\<lparr> skill_id = ''s1'', skill_name = ''Python'', priority = High, estHours = 1 \<rparr>]"

definition scenarioA_settings :: settings where
  "scenarioA_settings =
     \<lparr> mode = Daily, dailyHours = 1, startDate = 0, endDate = 0,
       startTime = HHMM 9 0, endTime = HHMM 17 0,
       workBlockMins = 50, breakMins = 10, lunch = None \<rparr>"

definition scenarioA_blocks :: "scheduleBlock list" where
  "scenarioA_blocks =
     [\<lparr> b_start = HHMM 9 0, b_end = HHMM 9 50, b_type = Work, skillId = Some ''s1'',
         skillName = Some ''Python'', minutes = 50, completed = Some False \<rparr>,
      \<lparr> b_start = HHMM 9 50, b_end = HHMM 10 0, b_type = Break, skillId = None,
         skillName = None, minutes = 10, completed = None \<rparr>,
      \<lparr> b_start = HHMM 10 0, b_end = HHMM 10 10, b_type = Work, skillId = Some ''s1'',
         skillName = Some ''Python'', minutes = 10, completed = Some False \<rparr>,
      \<lparr> b_start = HHMM 10 10, b_end = HHMM 17 0, b_type = Buffer, skillId = None,
         skillName = None, minutes = 410, completed = None \<rparr>]"

definition scenarioA_summary :: "scheduleSummary list" where
  "scenarioA_summary =
     [\<lparr> s_skillId = ''s1'', s_skillName = ''Python'', s_minutes = 60, percent = 100 \<rparr>]"

definition ledger :: "(string \<Rightarrow> rat) \<Rightarrow> gen_state \<Rightarrow> bool" where
  "ledger R g \<longleftrightarrow>
     (\<forall>k. getOr0 (totals_g g) k = schedWork k (generatedSchedule g)
        \<and> getOr0 (remaining_g g) k = R k - schedWork k (generatedSchedule g)
        \<and> (schedWork k (generatedSchedule g) = 0 \<or> - 5 < getOr0 (remaining_g g) k))"

text \<open>The schedule of a call that returned.\<close>

definition returned ::
  "(error + scheduleDay list \<times> scheduleSummary list) option \<Rightarrow> scheduleDay list option" where
  "returned r = (case r of Some (Inr p) \<Rightarrow> Some (fst p) | _ \<Rightarrow> None)"

text \<open>What claim C3 says of the schedule of scenario A: one day, exactly one work block
  (50 minutes, 09:00 to 09:50), and buffer blocks only besides it.\<close>

definition scenarioA_claim :: "scheduleDay list \<Rightarrow> bool" where
  "scenarioA_claim sched \<longleftrightarrow>
     (case sched of
        [day] \<Rightarrow>
          map (\<lambda>b. (b_start b, b_end b, minutes b))
              (filter (\<lambda>b. b_type b = Work) (blocks day)) = [(HHMM 9 0, HHMM 9 50, 50)]
          \<and> list_all (\<lambda>b. b_type b = Work \<or> b_type b = Buffer) (blocks day)
      | _ \<Rightarrow> False)"

text \<open>Blocks partition the window: sorted by start time, the first starts at the window
  start, each ends where the next starts, and the last ends at the window end.\<close>

fun contiguous :: "rat \<Rightarrow> rat \<Rightarrow> scheduleBlock list \<Rightarrow> bool" where
  "contiguous t windowEnd [] = (t = windowEnd)"
| "contiguous t windowEnd (b # bs) = (startMin b = t \<and> contiguous (endMin b) windowEnd bs)"

definition partitionsWindow :: "settings \<Rightarrow> scheduleBlock list \<Rightarrow> bool" where
  "partitionsWindow st bs \<longleftrightarrow>
     bs \<noteq> [] \<and>
     contiguous (timeToMinutes (startTime st)) (timeToMinutes (endTime st))
       (sort_key startMin bs)"

text \<open>An input the form validator accepts, on which a work block runs over the start of
  lunch.\<close>

definition overlap_skills :: "skill list" where
  "overlap_skills =
     [\<lparr> skill_id = ''s1'', skill_name = ''Python'', priority = High, estHours = 10 \<rparr>]"

definition overlap_settings :: settings where
  "overlap_settings =
     \<lparr> mode = Monthly, dailyHours = 6, startDate = 0, endDate = 0,
       startTime = HHMM 9 0, endTime = HHMM 17 0,
       workBlockMins = 45, breakMins = 10,
       lunch = Some \<lparr> lunch_start = HHMM 13 0, duration = 60 \<rparr> \<rparr>"

text \<open>The daily target in the words of the specification: weights High = 3, Medium = 2,
  Low = 1, the total weight summed over the skills with remaining minutes above zero.\<close>

definition specWeight :: "priority \<Rightarrow> rat" where
  "specWeight p = (if p = High then 3 else if p = Medium then 2 else 1)"

definition dailyTarget_spec :: "rat \<Rightarrow> skill list \<Rightarrow> nmap \<Rightarrow> skill \<Rightarrow> rat" where
  "dailyTarget_spec allocatable skills rem s =
     roundTo5 (min
       (allocatable * specWeight (priority s)
          / sum_list (map (\<lambda>x. specWeight (priority x))
                        (filter (\<lambda>x. getOr0 rem (skill_id x) > 0) skills)))
       (getOr0 rem (skill_id s)))"

text \<open>Scenario B of the specification: a High and a Low skill, four daily hours in the
  window 09:00 to 13:00, work blocks of 60 minutes and no break, with what the call
  returns on it.\<close>

definition scenarioB_skills :: "skill list" where
  "scenarioB_skills =
     [\<lparr> skill_id = ''s1'', skill_name = ''Python'', priority = High, estHours = 10 \<rparr>,
      \<lparr> skill_id = ''s2'', skill_name = ''SQL'', priority = Low, estHours = 10 \<rparr>]"

definition scenarioB_settings :: settings where
  "scenarioB_settings =
     \<lparr> mode = Daily, dailyHours = 4, startDate = 0, endDate = 0,
       startTime = HHMM 9 0, endTime = HHMM 13 0,
       workBlockMins = 60, breakMins = 0, lunch = None \<rparr>"

definition scenarioB_schedule :: "scheduleDay list" where
  "scenarioB_schedule =
     [\<lparr> date = 0, blocks =
        [\<lparr> b_start = HHMM 9 0, b_end = HHMM 10 0, b_type = Work, skillId = Some ''s1'',
            skillName = Some ''Python'', minutes = 60, completed = Some False \<rparr>,
         \<lparr> b_start = HHMM 10 0, b_end = HHMM 11 0, b_type = Work, skillId = Some ''s2'',
            skillName = Some ''SQL'', minutes = 60, completed = Some False \<rparr>,
         \<lparr> b_start = HHMM 11 0, b_end = HHMM 12 0, b_type = Work, skillId = Some ''s1'',
            skillName = Some ''Python'', minutes = 60, completed = Some False \<rparr>,
         \<lparr> b_start = HHMM 12 0, b_end = HHMM 13 0, b_type = Work, skillId = Some ''s1'',
            skillName = Some ''Python'', minutes = 60, completed = Some False \<rparr>] \<rparr>]"

definition scenarioB_summary :: "scheduleSummary list" where
  "scenarioB_summary =
     [\<lparr> s_skillId = ''s1'', s_skillName = ''Python'', s_minutes = 180, percent = 75 \<rparr>,
      \<lparr> s_skillId = ''s2'', s_skillName = ''SQL'', s_minutes = 60, percent = 25 \<rparr>]"

definition totalsLedger :: "string list \<Rightarrow> gen_state \<Rightarrow> bool" where
  "totalsLedger K g \<longleftrightarrow>
     map fst (totals_g g) = K
     \<and> sum_list (mapValues (totals_g g)) = schedAllWork (generatedSchedule g)
     \<and> (\<forall>k. getOr0 (totals_g g) k = schedWork k (generatedSchedule g))"

definition schedPositive :: "scheduleDay list \<Rightarrow> bool" where
  "schedPositive sched \<longleftrightarrow> (\<forall>d \<in> set sched. workPositive (blocks d))"




text \<open>Scenario C of the specification: Monthly mode over a single day, lunch at 13:00
  for 60 minutes, window 09:00 to 17:00, with the skill of scenario A, and the schedule
  the call returns on it.\<close>

definition scenarioC_settings :: settings where
  "scenarioC_settings =
     \<lparr> mode = Monthly, dailyHours = 0, startDate = 0, endDate = 0,
       startTime = HHMM 9 0, endTime = HHMM 17 0,
       workBlockMins = 50, breakMins = 10,
       lunch = Some \<lparr> lunch_start = HHMM 13 0, duration = 60 \<rparr> \<rparr>"

definition scenarioC_schedule :: "scheduleDay list" where
  "scenarioC_schedule =
     [\<lparr> date = 0, blocks =
        [\<lparr> b_start = HHMM 9 0, b_end = HHMM 9 50, b_type = Work, skillId = Some ''s1'',
            skillName = Some ''Python'', minutes = 50, completed = Some False \<rparr>,
         \<lparr> b_start = HHMM 9 50, b_end = HHMM 10 0, b_type = Break, skillId = None,
            skillName = None, minutes = 10, completed = None \<rparr>,
         \<lparr> b_start = HHMM 10 0, b_end = HHMM 10 10, b_type = Work, skillId = Some ''s1'',
            skillName = Some ''Python'', minutes = 10, completed = Some False \<rparr>,
         \<lparr> b_start = HHMM 10 10, b_end = HHMM 13 0, b_type = Buffer, skillId = None,
            skillName = None, minutes = 170, completed = None \<rparr>,
         \<lparr> b_start = HHMM 13 0, b_end = HHMM 14 0, b_type = Lunch, skillId = None,
            skillName = None, minutes = 60, completed = None \<rparr>,
         \<lparr> b_start = HHMM 14 0, b_end = HHMM 17 0, b_type = Buffer, skillId = None,
            skillName = None, minutes = 180, completed = None \<rparr>] \<rparr>]"

definition lunchInv :: "lunch_t \<Rightarrow> loop_state \<Rightarrow> bool" where
  "lunchInv l s \<longleftrightarrow>
     lunchBlocks (ls_blocks s) = []
     \<or> (lunchBlocks (ls_blocks s) = [lunchBlock l]
        \<and> timeToMinutes (lunch_start l) + duration l \<le> currentTime s)"

text \<open>The keys of the daily allocation are distinct and are ids of queued skills.\<close>

definition allocKeysInv :: "skill list \<Rightarrow> loop_state \<Rightarrow> bool" where
  "allocKeysInv q s \<longleftrightarrow>
     distinct (map fst (dailyAllocation s))
     \<and> fst ` set (dailyAllocation s) \<subseteq> skill_id ` set q"

text \<open>The four components of the measure that decreases with every pass of the loop:
  the work blocks of full length that still fit, the skills with allocation left, whether
  lunch is still ahead, and the distance to the next skill with allocation left.\<close>

definition m_time :: "settings \<Rightarrow> rat \<Rightarrow> loop_state \<Rightarrow> nat" where
  "m_time st we s = nat \<lceil>(we - currentTime s) / workBlockMins st\<rceil>"

definition m_pos :: "loop_state \<Rightarrow> nat" where
  "m_pos s = length (filter (\<lambda>kv. 0 < snd kv) (dailyAllocation s))"

definition m_lunch :: "settings \<Rightarrow> loop_state \<Rightarrow> nat" where
  "m_lunch st s =
     (case lunch st of None \<Rightarrow> 0
      | Some l \<Rightarrow> if currentTime s < timeToMinutes (lunch_start l) + duration l then 1 else 0)"

definition posAt :: "skill list \<Rightarrow> loop_state \<Rightarrow> nat \<Rightarrow> bool" where
  "posAt q s n \<longleftrightarrow> 0 < getOr0 (dailyAllocation s) (skill_id (q ! (n mod length q)))"

definition m_skip :: "skill list \<Rightarrow> loop_state \<Rightarrow> nat" where
  "m_skip q s = (LEAST n. posAt q s (queueIndex s + n))"

text \<open>The remaining minutes with which the first day starts.\<close>

definition initialRemaining :: "skill list \<Rightarrow> nmap" where
  "initialRemaining skills = newMap (map (\<lambda>s. (skill_id s, estHours s * 60)) skills)"

text \<open>Scenario A with work blocks of zero minutes and no break, an input outside the data
  model (\<open>workBlockMins \<ge> 25\<close>): the cursor of the loop never moves.\<close>

definition stuck_settings :: settings where
  "stuck_settings = scenarioA_settings \<lparr> workBlockMins := 0, breakMins := 0 \<rparr>"

definition stuckInv :: "loop_state \<Rightarrow> bool" where
  "stuckInv s \<longleftrightarrow>
     currentTime s = 540 \<and> totalAllocatedToday s = 60 \<and> dailyAllocation s = [(''s1'', 60)]"

section \<open>Lemmas\<close>

subsection \<open>Maps\<close>

lemma getOr0_update: "getOr0 (AList.update k v m) k' = (if k' = k then v else getOr0 m k')"
  by (simp add: getOr0_def update_conv')

lemma newMap_snoc: "newMap (kvs @ [kv]) = AList.update (fst kv) (snd kv) (newMap kvs)"
  by (simp add: newMap_def)

lemma newMap_Nil: "newMap [] = []"
  by (simp add: newMap_def)

lemma keys_newMap: "fst ` set (newMap kvs) = fst ` set kvs"
  by (induction kvs rule: rev_induct) (auto simp: newMap_snoc newMap_Nil dom_update)

lemma map_of_newMap_in: "map_of (newMap kvs) k = Some v \<Longrightarrow> (k, v) \<in> set kvs"
  by (induction kvs rule: rev_induct)
     (auto simp: newMap_snoc newMap_Nil update_conv' split: if_splits)

lemma update_absent: "k \<notin> fst ` set m \<Longrightarrow> AList.update k v m = m @ [(k, v)]"
  by (induction m) auto

lemma newMap_distinct: "distinct (map fst kvs) \<Longrightarrow> newMap kvs = kvs"
proof (induction kvs rule: rev_induct)
  case Nil
  show ?case by (simp add: newMap_Nil)
next
  case (snoc kv kvs)
  then have "newMap kvs = kvs" and "fst kv \<notin> fst ` set kvs" by auto
  then show ?case by (simp add: newMap_snoc update_absent)
qed

lemma sum_values_update:
  "k \<in> fst ` set m \<Longrightarrow>
   sum_list (mapValues (AList.update k v m)) = sum_list (mapValues m) - getOr0 m k + v"
  by (induction m) (force simp: mapValues_def getOr0_def)+

lemma sum_list_insort_key: "sum_list (map f (insort_key g x xs)) = f x + sum_list (map f xs)"
  for f :: "'a \<Rightarrow> rat" and g :: "'a \<Rightarrow> rat"
  by (induction xs) auto

lemma sum_list_sort_key: "sum_list (map f (sort_key g xs)) = sum_list (map f xs)"
  for f :: "'a \<Rightarrow> rat" and g :: "'a \<Rightarrow> rat"
  by (induction xs) (auto simp: sum_list_insort_key)

subsection \<open>Rounding and times\<close>

lemma roundTo5_le: "roundTo5 x \<le> x + 5/2"
  unfolding roundTo5_def math_round_def by linarith

lemma roundTo5_gt: "roundTo5 x > x - 5/2"
  unfolding roundTo5_def math_round_def by linarith


subsection \<open>The loop\<close>

lemma while_loop_rule:
  assumes run: "while_loop st we q s = Some s'"
    and init: "I s"
    and step: "\<And>s t. I s \<Longrightarrow> currentTime s < we \<Longrightarrow> 0 < totalAllocatedToday s
                 \<Longrightarrow> loop_body st we q s = Inr t \<Longrightarrow> I t"
    and brk: "\<And>s t. I s \<Longrightarrow> currentTime s < we \<Longrightarrow> 0 < totalAllocatedToday s
                 \<Longrightarrow> loop_body st we q s = Inl t \<Longrightarrow> Q t"
    and exit: "\<And>s. I s \<Longrightarrow> \<not> (currentTime s < we \<and> 0 < totalAllocatedToday s) \<Longrightarrow> Q s"
  shows "Q s'"
proof -
  have "st' = st \<longrightarrow> we' = we \<longrightarrow> q' = q \<longrightarrow> I s \<longrightarrow> Q s'"
    if "while_loop st' we' q' s = Some s'" for st' we' q' s s'
  proof (rule while_loop.raw_induct
      [where P = "\<lambda>st' we' q' s s'. st' = st \<longrightarrow> we' = we \<longrightarrow> q' = q \<longrightarrow> I s \<longrightarrow> Q s'",
        OF _ that])
    fix wl st' we' q' s s'
    assume IH: "\<And>a b c d y. wl a b c d = Some y
        \<Longrightarrow> a = st \<longrightarrow> b = we \<longrightarrow> c = q \<longrightarrow> I d \<longrightarrow> Q y"
      and eq: "(if currentTime s < we' \<and> 0 < totalAllocatedToday s
         then case loop_body st' we' q' s of Inl s' \<Rightarrow> Some s'
              | Inr s' \<Rightarrow> wl st' we' q' s'
         else Some s) = Some s'"
    show "st' = st \<longrightarrow> we' = we \<longrightarrow> q' = q \<longrightarrow> I s \<longrightarrow> Q s'"
    proof (intro impI)
      assume p: "st' = st" "we' = we" "q' = q" "I s"
      show "Q s'"
      proof (cases "currentTime s < we \<and> 0 < totalAllocatedToday s")
        case False
        with eq p have "s' = s" by simp
        with exit [OF p(4) False] show ?thesis by simp
      next
        case True
        show ?thesis
        proof (cases "loop_body st we q s")
          case (Inl t)
          with eq p True have "s' = t" by simp
          with brk [OF p(4) _ _ Inl] True show ?thesis by simp
        next
          case (Inr t)
          with eq p True have "wl st we q t = Some s'" by simp
          moreover have "I t" using step [OF p(4) _ _ Inr] True by simp
          ultimately show ?thesis using IH by blast
        qed
      qed
    qed
  qed
  with run init show ?thesis by blast
qed

lemma loop_body_cases [consumes 1, case_names lunch skip_break skip clip work]:
  assumes "loop_body st we q s = r"
  obtains
    l where "lunchHit (lunch st) (currentTime s) = Some l" "r = Inr (lunchStep l s)"
  | "lunchHit (lunch st) (currentTime s) = None"
    "getOr0 (dailyAllocation s) (skill_id (q ! (queueIndex s mod length q))) \<le> 0"
    "list_all (\<lambda>t. t \<le> 0) (mapValues (dailyAllocation s))"
    "r = Inl (s \<lparr> queueIndex := queueIndex s + 1 \<rparr>)"
  | "lunchHit (lunch st) (currentTime s) = None"
    "getOr0 (dailyAllocation s) (skill_id (q ! (queueIndex s mod length q))) \<le> 0"
    "\<not> list_all (\<lambda>t. t \<le> 0) (mapValues (dailyAllocation s))"
    "r = Inr (s \<lparr> queueIndex := queueIndex s + 1 \<rparr>)"
  | sk left where "lunchHit (lunch st) (currentTime s) = None"
    "sk = q ! (queueIndex s mod length q)"
    "left = getOr0 (dailyAllocation s) (skill_id sk)" "0 < left"
    "currentTime s + min (workBlockMins st) left > we"
    "r = Inl (if roundTo5 (we - currentTime s) > 0
              then emitWork sk left (roundTo5 (we - currentTime s))
                     (s \<lparr> queueIndex := queueIndex s + 1 \<rparr>)
              else s \<lparr> queueIndex := queueIndex s + 1 \<rparr>)"
  | sk left d where "lunchHit (lunch st) (currentTime s) = None"
    "sk = q ! (queueIndex s mod length q)"
    "left = getOr0 (dailyAllocation s) (skill_id sk)" "0 < left"
    "d = min (workBlockMins st) left"
    "currentTime s + d \<le> we"
    "r = Inr (takeBreak st we
               ((emitWork sk left d (s \<lparr> queueIndex := queueIndex s + 1 \<rparr>))
                  \<lparr> currentTime := currentTime s + d \<rparr>))"
  using assms unfolding loop_body_def Let_def
  by (auto split: option.splits if_splits)

subsection \<open>Fields after each step\<close>

lemma emitWork_fields [simp]:
  "ls_blocks (emitWork sk l d s) = ls_blocks s @ [workBlock sk (currentTime s) d]"
  "currentTime (emitWork sk l d s) = currentTime s"
  "queueIndex (emitWork sk l d s) = queueIndex s"
  "dailyAllocation (emitWork sk l d s) = AList.update (skill_id sk) (l - d) (dailyAllocation s)"
  "totalAllocatedToday (emitWork sk l d s) = totalAllocatedToday s - d"
  "totalMinutesPerSkill (emitWork sk l d s) =
     AList.update (skill_id sk) (getOr0 (totalMinutesPerSkill s) (skill_id sk) + d)
       (totalMinutesPerSkill s)"
  "remainingHours (emitWork sk l d s) =
     AList.update (skill_id sk) (getOr0 (remainingHours s) (skill_id sk) - d) (remainingHours s)"
  by (simp_all add: emitWork_def)

lemma lunchStep_fields [simp]:
  "currentTime (lunchStep l s) = timeToMinutes (lunch_start l) + duration l"
  "queueIndex (lunchStep l s) = queueIndex s"
  "dailyAllocation (lunchStep l s) = dailyAllocation s"
  "totalAllocatedToday (lunchStep l s) = totalAllocatedToday s"
  "totalMinutesPerSkill (lunchStep l s) = totalMinutesPerSkill s"
  "remainingHours (lunchStep l s) = remainingHours s"
  by (simp_all add: lunchStep_def)

lemma takeBreak_fields [simp]:
  "queueIndex (takeBreak st we s) = queueIndex s"
  "dailyAllocation (takeBreak st we s) = dailyAllocation s"
  "totalAllocatedToday (takeBreak st we s) = totalAllocatedToday s"
  "totalMinutesPerSkill (takeBreak st we s) = totalMinutesPerSkill s"
  "remainingHours (takeBreak st we s) = remainingHours s"
  by (simp_all add: takeBreak_def)

lemma block_fields [simp]:
  "b_type (workBlock sk t d) = Work" "skillId (workBlock sk t d) = Some (skill_id sk)"
  "minutes (workBlock sk t d) = d"
  "b_start (workBlock sk t d) = minutesToTime t" "b_end (workBlock sk t d) = minutesToTime (t + d)"
  "b_type (lunchBlock l) = Lunch" "minutes (lunchBlock l) = duration l"
  "b_start (lunchBlock l) = minutesToTime (timeToMinutes (lunch_start l))"
  "b_end (lunchBlock l) = minutesToTime (timeToMinutes (lunch_start l) + duration l)"
  "b_type (plainBlock ty t e d) = ty" "minutes (plainBlock ty t e d) = d"
  "b_start (plainBlock ty t e d) = minutesToTime t" "b_end (plainBlock ty t e d) = minutesToTime e"
  by (simp_all add: workBlock_def lunchBlock_def plainBlock_def)

subsection \<open>Work minutes of block lists\<close>

lemma workSum_simps [simp]:
  "workSum k [] = 0"
  "workSum k (bs @ cs) = workSum k bs + workSum k cs"
  "workSum k (b # bs) = (if b_type b = Work \<and> skillId b = Some k then minutes b else 0) + workSum k bs"
  by (simp_all add: workSum_def)

lemma allWork_simps [simp]:
  "allWork [] = 0"
  "allWork (bs @ cs) = allWork bs + allWork cs"
  "allWork (b # bs) = (if b_type b = Work then minutes b else 0) + allWork bs"
  by (simp_all add: allWork_def)

lemma lunchBlocks_simps [simp]:
  "lunchBlocks [] = []"
  "lunchBlocks (bs @ cs) = lunchBlocks bs @ lunchBlocks cs"
  "lunchBlocks (b # bs) = (if b_type b = Lunch then [b] else []) @ lunchBlocks bs"
  by (simp_all add: lunchBlocks_def)

lemma workSum_lunchStep [simp]: "workSum k (ls_blocks (lunchStep l s)) = workSum k (ls_blocks s)"
  by (simp add: lunchStep_def)

lemma workSum_takeBreak [simp]:
  "workSum k (ls_blocks (takeBreak st we s)) = workSum k (ls_blocks s)"
  by (simp add: takeBreak_def)

lemma allWork_lunchStep [simp]: "allWork (ls_blocks (lunchStep l s)) = allWork (ls_blocks s)"
  by (simp add: lunchStep_def)

lemma allWork_takeBreak [simp]:
  "allWork (ls_blocks (takeBreak st we s)) = allWork (ls_blocks s)"
  by (simp add: takeBreak_def)

subsection \<open>The accounts of the loop\<close>

lemma acctInv_emitWork:
  assumes "acctInv A R T s" "left = getOr0 (dailyAllocation s) (skill_id sk)"
  shows "acctInv A R T (emitWork sk left d (s \<lparr> queueIndex := n \<rparr>))"
  using assms by (simp add: acctInv_def getOr0_update)

lemma acctInv_step:
  assumes "acctInv A R T s" "loop_body st we q s = r" "r = Inl t \<or> r = Inr t"
  shows "acctInv A R T t"
  using assms(2)
proof (cases rule: loop_body_cases)
  case (lunch l)
  with assms show ?thesis by (auto simp: acctInv_def)
next
  case skip_break
  with assms show ?thesis by (auto simp: acctInv_def)
next
  case skip
  with assms show ?thesis by (auto simp: acctInv_def)
next
  case (clip sk left)
  with assms(3) have "t = emitWork sk left (roundTo5 (we - currentTime s)) (s \<lparr> queueIndex := queueIndex s + 1 \<rparr>)
     \<or> t = s \<lparr> queueIndex := queueIndex s + 1 \<rparr>"
    by (auto split: if_splits)
  then show ?thesis
  proof
    assume "t = emitWork sk left (roundTo5 (we - currentTime s)) (s \<lparr> queueIndex := queueIndex s + 1 \<rparr>)"
    with acctInv_emitWork [OF assms(1) clip(3)] show ?thesis by simp
  next
    assume "t = s \<lparr> queueIndex := queueIndex s + 1 \<rparr>"
    with assms(1) show ?thesis by (simp add: acctInv_def)
  qed
next
  case (work sk left d)
  have "acctInv A R T (emitWork sk left d (s \<lparr> queueIndex := queueIndex s + 1 \<rparr>))"
    by (rule acctInv_emitWork [OF assms(1) work(3)])
  with work(7) assms(3) show ?thesis by (auto simp: acctInv_def)
qed

lemma allocNonneg_step:
  assumes "\<forall>k. 0 \<le> getOr0 (dailyAllocation s) k" "loop_body st we q s = Inr t"
  shows "\<forall>k. 0 \<le> getOr0 (dailyAllocation t) k"
  using assms(2)
proof (cases rule: loop_body_cases)
  case (work sk left d)
  with assms(1) show ?thesis by (auto simp: getOr0_update)
qed (use assms(1) in auto)

lemma allocSlack_break:
  assumes "\<forall>k. 0 \<le> getOr0 (dailyAllocation s) k" "loop_body st we q s = Inl t"
  shows "\<forall>k. - (5/2) < getOr0 (dailyAllocation t) k"
  using assms(2)
proof (cases rule: loop_body_cases)
  case skip_break
  with assms(1) show ?thesis by (auto intro: less_le_trans [of _ 0])
next
  case (clip sk left)
  have "roundTo5 (we - currentTime s) \<le> we - currentTime s + 5/2" by (rule roundTo5_le)
  with clip(5) have "left - roundTo5 (we - currentTime s) > - (5/2)" by simp
  moreover have "- (5/2) < getOr0 (dailyAllocation s) k" for k
  proof -
    have "0 \<le> getOr0 (dailyAllocation s) k" using assms(1) by simp
    then show ?thesis by simp
  qed
  ultimately show ?thesis using clip(6) by (auto simp: getOr0_update split: if_splits)
qed auto

lemma while_loop_acct:
  assumes "while_loop st we q s = Some s'" "acctInv A R T s"
    "\<forall>k. 0 \<le> getOr0 (dailyAllocation s) k"
  shows "acctInv A R T s' \<and> (\<forall>k. - (5/2) < getOr0 (dailyAllocation s') k)"
proof (rule while_loop_rule [OF assms(1),
      where I = "\<lambda>s. acctInv A R T s \<and> (\<forall>k. 0 \<le> getOr0 (dailyAllocation s) k)"])
  show "acctInv A R T s \<and> (\<forall>k. 0 \<le> getOr0 (dailyAllocation s) k)" using assms by simp
next
  fix s t
  assume "acctInv A R T s \<and> (\<forall>k. 0 \<le> getOr0 (dailyAllocation s) k)"
    "loop_body st we q s = Inr t"
  then show "acctInv A R T t \<and> (\<forall>k. 0 \<le> getOr0 (dailyAllocation t) k)"
    using acctInv_step [of A R T s st we q "Inr t" t] allocNonneg_step [of s st we q t] by blast
next
  fix s t
  assume "acctInv A R T s \<and> (\<forall>k. 0 \<le> getOr0 (dailyAllocation s) k)"
    "loop_body st we q s = Inl t"
  then show "acctInv A R T t \<and> (\<forall>k. - (5/2) < getOr0 (dailyAllocation t) k)"
    using acctInv_step [of A R T s st we q "Inl t" t] allocSlack_break [of s st we q t] by blast
next
  fix s
  assume a: "acctInv A R T s \<and> (\<forall>k. 0 \<le> getOr0 (dailyAllocation s) k)"
  have "- (5/2) < getOr0 (dailyAllocation s) k" for k
  proof -
    have "0 \<le> getOr0 (dailyAllocation s) k" using a by simp
    then show ?thesis by simp
  qed
  with a show "acctInv A R T s \<and> (\<forall>k. - (5/2) < getOr0 (dailyAllocation s) k)" by simp
qed

lemma while_loop_inv:
  assumes "while_loop st we q s = Some s'" "I s"
    and "\<And>s t. I s \<Longrightarrow> currentTime s < we \<Longrightarrow> 0 < totalAllocatedToday s
            \<Longrightarrow> loop_body st we q s = Inl t \<or> loop_body st we q s = Inr t \<Longrightarrow> I t"
  shows "I s'"
proof (rule while_loop_rule [OF assms(1), where I = I and Q = I])
  show "I s" by fact
next
  fix s t
  assume "I s" "currentTime s < we" "0 < totalAllocatedToday s" "loop_body st we q s = Inr t"
  then show "I t" using assms(3) [of s t] by simp
next
  fix s t
  assume "I s" "currentTime s < we" "0 < totalAllocatedToday s" "loop_body st we q s = Inl t"
  then show "I t" using assms(3) [of s t] by simp
next
  fix s
  assume "I s"
  then show "I s" .
qed

subsection \<open>Whose work blocks, and the sum of the totals\<close>

lemma set_lunchStep: "set (ls_blocks (lunchStep l s)) \<subseteq> insert (lunchBlock l) (set (ls_blocks s))"
  by (auto simp: lunchStep_def)

lemma set_takeBreak:
  "set (ls_blocks (takeBreak st we s)) \<subseteq>
     insert (plainBlock Break (currentTime s) (currentTime s + breakMins st) (breakMins st))
       (set (ls_blocks s))"
  by (auto simp: takeBreak_def)

lemma ownerInv_step:
  assumes "ownerInv q (ls_blocks s)" "q \<noteq> []"
    "loop_body st we q s = r" "r = Inl t \<or> r = Inr t"
  shows "ownerInv q (ls_blocks t)"
  using assms(3)
proof (cases rule: loop_body_cases)
  case (lunch l)
  with assms(1,4) set_lunchStep [of l s] show ?thesis
    by (auto simp: ownerInv_def)
next
  case (clip sk left)
  from clip(2) assms(2) have "sk \<in> set q" by simp
  with clip(6) assms(1,4) show ?thesis by (auto simp: ownerInv_def split: if_splits)
next
  case (work sk left d)
  let ?u = "(emitWork sk left d (s \<lparr> queueIndex := queueIndex s + 1 \<rparr>))
                  \<lparr> currentTime := currentTime s + d \<rparr>"
  from work(2) assms(2) have "sk \<in> set q" by simp
  with assms(1) have "ownerInv q (ls_blocks ?u)" by (auto simp: ownerInv_def)
  moreover have "t = takeBreak st we ?u" using work(7) assms(4) by auto
  ultimately show ?thesis
    using set_takeBreak [of st we ?u] by (auto simp: ownerInv_def)
qed (use assms in \<open>auto simp: ownerInv_def\<close>)

lemma while_loop_owner:
  assumes "while_loop st we q s = Some s'" "ownerInv q (ls_blocks s)" "q \<noteq> []"
  shows "ownerInv q (ls_blocks s')"
proof (rule while_loop_inv [OF assms(1), where I = "\<lambda>s. ownerInv q (ls_blocks s)"])
  show "ownerInv q (ls_blocks s)" by fact
next
  fix s t
  assume "ownerInv q (ls_blocks s)" "loop_body st we q s = Inl t \<or> loop_body st we q s = Inr t"
  then show "ownerInv q (ls_blocks t)"
    using ownerInv_step [where s = s and t = t and st = st and we = we, OF _ assms(3) refl]
    by auto
qed

lemma totalsInv_emitWork:
  assumes "totalsInv K S s" "skill_id sk \<in> set K"
  shows "totalsInv K S (emitWork sk left d (s \<lparr> queueIndex := n \<rparr>))"
proof -
  from assms have k: "skill_id sk \<in> fst ` set (totalMinutesPerSkill s)"
    by (auto simp: totalsInv_def)
  then have "skill_id sk \<in> set (map fst (totalMinutesPerSkill s))" by simp
  with assms(1) k show ?thesis
    by (simp add: totalsInv_def update_keys sum_values_update del: set_map)
qed

lemma totalsInv_step:
  assumes "totalsInv K S s" "q \<noteq> []" "skill_id ` set q \<subseteq> set K"
    "loop_body st we q s = r" "r = Inl t \<or> r = Inr t"
  shows "totalsInv K S t"
  using assms(4)
proof (cases rule: loop_body_cases)
  case (clip sk left)
  from clip(2) assms(2,3) have "skill_id sk \<in> set K" by auto
  from totalsInv_emitWork [OF assms(1) this] clip(6) assms(1,5)
  show ?thesis by (auto simp: totalsInv_def split: if_splits)
next
  case (work sk left d)
  from work(2) assms(2,3) have "skill_id sk \<in> set K" by auto
  from totalsInv_emitWork [OF assms(1) this, of left d "queueIndex s + 1"]
  have "totalsInv K S ((emitWork sk left d (s \<lparr> queueIndex := queueIndex s + 1 \<rparr>))
                  \<lparr> currentTime := currentTime s + d \<rparr>)" (is "totalsInv K S ?u")
    by (simp add: totalsInv_def)
  moreover have "t = takeBreak st we ?u" using work(7) assms(5) by auto
  ultimately show ?thesis by (simp add: totalsInv_def)
qed (use assms in \<open>auto simp: totalsInv_def\<close>)

lemma while_loop_totals:
  assumes "while_loop st we q s = Some s'" "totalsInv K S s" "q \<noteq> []"
    "skill_id ` set q \<subseteq> set K"
  shows "totalsInv K S s'"
proof (rule while_loop_inv [OF assms(1), where I = "totalsInv K S"])
  show "totalsInv K S s" by fact
next
  fix s t
  assume "totalsInv K S s" "loop_body st we q s = Inl t \<or> loop_body st we q s = Inr t"
  then show "totalsInv K S t"
    using totalsInv_step [where s = s and t = t and st = st and we = we, OF _ assms(3,4) refl]
    by auto
qed

subsection \<open>Work blocks have positive minutes\<close>

lemma workPositive_step:
  assumes "workPositive (ls_blocks s)" "0 < workBlockMins st"
    "loop_body st we q s = r" "r = Inl t \<or> r = Inr t"
  shows "workPositive (ls_blocks t)"
  using assms(3)
proof (cases rule: loop_body_cases)
  case (lunch l)
  with assms(1,4) set_lunchStep [of l s] show ?thesis
    by (auto simp: workPositive_def)
next
  case (work sk left d)
  let ?u = "(emitWork sk left d (s \<lparr> queueIndex := queueIndex s + 1 \<rparr>))
                  \<lparr> currentTime := currentTime s + d \<rparr>"
  have "workPositive (ls_blocks ?u)" using assms(1,2) work(4,5) by (auto simp: workPositive_def)
  moreover have "t = takeBreak st we ?u" using work(7) assms(4) by auto
  ultimately show ?thesis
    using set_takeBreak [of st we ?u] by (auto simp: workPositive_def)
qed (use assms in \<open>auto simp: workPositive_def split: if_splits\<close>)

lemma while_loop_workPositive:
  assumes "while_loop st we q s = Some s'" "workPositive (ls_blocks s)" "0 < workBlockMins st"
  shows "workPositive (ls_blocks s')"
proof (rule while_loop_inv [OF assms(1), where I = "\<lambda>s. workPositive (ls_blocks s)"])
  show "workPositive (ls_blocks s)" by fact
next
  fix s t
  assume "workPositive (ls_blocks s)" "loop_body st we q s = Inl t \<or> loop_body st we q s = Inr t"
  then show "workPositive (ls_blocks t)"
    using workPositive_step [where s = s and t = t and we = we and q = q, OF _ assms(3) refl] by auto
qed

lemma workPositive_allWork: "workPositive bs \<Longrightarrow> 0 \<le> allWork bs"
  by (induction bs) (auto simp: workPositive_def)

lemma workPositive_workSum: "workPositive bs \<Longrightarrow> 0 \<le> workSum k bs"
  by (induction bs) (auto simp: workPositive_def)

lemma workSum_foreign:
  "\<forall>b \<in> set bs. b_type b = Work \<longrightarrow> skillId b \<noteq> Some k \<Longrightarrow> workSum k bs = 0"
  by (induction bs) auto

subsection \<open>After the loop: lunch backfill, sort, buffer fill\<close>

lemma fillGaps_mem:
  "b \<in> set (fillGaps we t bs) \<Longrightarrow> b \<in> set bs \<or> b_type b = Buffer"
  by (induction bs arbitrary: t) (auto simp: Let_def split: if_splits)

lemma fillGaps_keeps: "set bs \<subseteq> set (fillGaps we t bs)"
  by (induction bs arbitrary: t) (auto simp: Let_def)

lemma lunchBackfill_mem:
  "b \<in> set (lunchBackfill st bs) \<Longrightarrow> b \<in> set bs \<or> b_type b = Lunch"
  by (auto simp: lunchBackfill_def split: option.splits if_splits)

lemma finishDay_mem:
  "b \<in> set (finishDay st bs) \<Longrightarrow> b \<in> set bs \<or> b_type b = Lunch \<or> b_type b = Buffer"
  unfolding finishDay_def using fillGaps_mem lunchBackfill_mem by fastforce

lemma workSum_fillGaps [simp]: "workSum k (fillGaps we t bs) = workSum k bs"
  by (induction bs arbitrary: t) (auto simp: Let_def)

lemma allWork_fillGaps [simp]: "allWork (fillGaps we t bs) = allWork bs"
  by (induction bs arbitrary: t) (auto simp: Let_def)

lemma lunchBlocks_fillGaps [simp]: "lunchBlocks (fillGaps we t bs) = lunchBlocks bs"
  by (induction bs arbitrary: t) (auto simp: Let_def)

lemma workSum_sort_key [simp]: "workSum k (sort_key f bs) = workSum k bs"
  for f :: "scheduleBlock \<Rightarrow> rat"
  by (simp add: workSum_def filter_sort sum_list_sort_key)

lemma allWork_sort_key [simp]: "allWork (sort_key f bs) = allWork bs"
  for f :: "scheduleBlock \<Rightarrow> rat"
  by (simp add: allWork_def filter_sort sum_list_sort_key)

lemma workSum_lunchBackfill [simp]: "workSum k (lunchBackfill st bs) = workSum k bs"
  by (simp add: lunchBackfill_def split: option.splits)

lemma allWork_lunchBackfill [simp]: "allWork (lunchBackfill st bs) = allWork bs"
  by (simp add: lunchBackfill_def split: option.splits)

lemma workSum_finishDay [simp]: "workSum k (finishDay st bs) = workSum k bs"
  by (simp add: finishDay_def)

lemma allWork_finishDay [simp]: "allWork (finishDay st bs) = allWork bs"
  by (simp add: finishDay_def)

lemma workPositive_finishDay: "workPositive bs \<Longrightarrow> workPositive (finishDay st bs)"
  unfolding workPositive_def using finishDay_mem by fastforce

subsection \<open>The start of a day\<close>

lemma processDay_Pushed:
  assumes "processDay st skills dayIx d rem tot = Some (Pushed day rem' tot')"
  obtains s where
    "timeToMinutes (startTime st) < timeToMinutes (endTime st)"
    "0 < allocatableTimeForDay st"
    "activeSkills skills rem \<noteq> []"
    "while_loop st (timeToMinutes (endTime st))
       (skillQueueFor dayIx (activeSkills skills rem))
       (initLoop st
          (dailyAllocationFor (allocatableTimeForDay st) (activeSkills skills rem) rem)
          rem tot) = Some s"
    "day = \<lparr> date = d, blocks = finishDay st (ls_blocks s) \<rparr>"
    "rem' = remainingHours s" "tot' = totalMinutesPerSkill s"
  using assms unfolding processDay_def
  by (auto split: if_splits option.splits)

lemma set_skillQueueFor [simp]: "set (skillQueueFor i a) = set a"
proof -
  have "set (case xs of [] \<Rightarrow> [] | x # ys \<Rightarrow> ys @ [x]) = set xs" for xs :: "skill list"
    by (cases xs) auto
  then show ?thesis by (simp add: skillQueueFor_def Let_def)
qed

lemma skillQueueFor_nonempty: "a \<noteq> [] \<Longrightarrow> skillQueueFor i a \<noteq> []"
  using set_skillQueueFor [of i a] by (metis set_empty)

lemma weight_pos: "0 < PRIORITY_WEIGHTS p"
  by (cases p) (simp_all add: PRIORITY_WEIGHTS_def)

lemma totalWeightOf_pos: "a \<noteq> [] \<Longrightarrow> 0 < totalWeightOf a"
proof (induction a)
  case Nil
  then show ?case by simp
next
  case (Cons x xs)
  have "0 \<le> totalWeightOf xs"
    unfolding totalWeightOf_def by (rule sum_list_nonneg) (auto simp: weight_pos less_imp_le)
  with weight_pos [of "priority x"] show ?case by (simp add: totalWeightOf_def)
qed

lemma roundTo5_nonneg: "0 \<le> x \<Longrightarrow> 0 \<le> roundTo5 x"
  unfolding roundTo5_def math_round_def by simp

lemma dailyAllocationFor_entry:
  assumes "map_of (dailyAllocationFor a active rem) k = Some v"
  obtains s where "s \<in> set active" "skill_id s = k"
    "v = roundTo5 (min (a * PRIORITY_WEIGHTS (priority s) / totalWeightOf active)
                      (getOr0 rem k))"
  using map_of_newMap_in [OF assms [unfolded dailyAllocationFor_def]]
  by (auto simp: Let_def)

lemma active_remaining: "s \<in> set (activeSkills skills rem) \<Longrightarrow> 0 < getOr0 rem (skill_id s)"
  by (simp add: activeSkills_def)

lemma dailyAllocationFor_bounds:
  assumes "0 < a" "active = activeSkills skills rem" "active \<noteq> []"
  shows "0 \<le> getOr0 (dailyAllocationFor a active rem) k"
    and "getOr0 (dailyAllocationFor a active rem) k \<le> max 0 (getOr0 rem k + 5/2)"
proof -
  have "0 \<le> getOr0 (dailyAllocationFor a active rem) k
      \<and> getOr0 (dailyAllocationFor a active rem) k \<le> max 0 (getOr0 rem k + 5/2)"
  proof (cases "map_of (dailyAllocationFor a active rem) k")
    case None
    then show ?thesis by (simp add: getOr0_def)
  next
    case (Some v)
    then obtain s where s: "s \<in> set active" "skill_id s = k"
      "v = roundTo5 (min (a * PRIORITY_WEIGHTS (priority s) / totalWeightOf active)
                      (getOr0 rem k))"
      by (rule dailyAllocationFor_entry)
    have "0 < a * PRIORITY_WEIGHTS (priority s) / totalWeightOf active"
      using assms(1) weight_pos totalWeightOf_pos [OF assms(3)] by simp
    moreover have "0 < getOr0 rem k" using s(1,2) assms(2) active_remaining by blast
    ultimately have "0 \<le> v" unfolding s(3) by (intro roundTo5_nonneg) simp
    moreover have "v \<le> getOr0 rem k + 5/2"
      unfolding s(3)
      using roundTo5_le [of "min (a * PRIORITY_WEIGHTS (priority s) / totalWeightOf active)
                      (getOr0 rem k)"] by simp
    ultimately show ?thesis using Some by (simp add: getOr0_def)
  qed
  then show "0 \<le> getOr0 (dailyAllocationFor a active rem) k"
    and "getOr0 (dailyAllocationFor a active rem) k \<le> max 0 (getOr0 rem k + 5/2)" by simp_all
qed

lemma initLoop_fields [simp]:
  "ls_blocks (initLoop st alloc rem tot) = []"
  "currentTime (initLoop st alloc rem tot) = timeToMinutes (startTime st)"
  "queueIndex (initLoop st alloc rem tot) = 0"
  "dailyAllocation (initLoop st alloc rem tot) = alloc"
  "totalAllocatedToday (initLoop st alloc rem tot) = sum_list (mapValues alloc)"
  "remainingHours (initLoop st alloc rem tot) = rem"
  "totalMinutesPerSkill (initLoop st alloc rem tot) = tot"
  by (simp_all add: initLoop_def)

lemma processDay_acct:
  assumes "processDay st skills dayIx d rem tot = Some (Pushed day rem' tot')"
  shows "getOr0 rem' k = getOr0 rem k - workSum k (blocks day)"
    and "getOr0 tot' k = getOr0 tot k + workSum k (blocks day)"
    and "workSum k (blocks day) = 0
         \<or> (0 < getOr0 rem k \<and> workSum k (blocks day) < getOr0 rem k + 5)"
proof -
  let ?active = "activeSkills skills rem"
  let ?alloc = "dailyAllocationFor (allocatableTimeForDay st) ?active rem"
  let ?q = "skillQueueFor dayIx ?active"
  from assms obtain s where s:
    "0 < allocatableTimeForDay st" "?active \<noteq> []"
    "while_loop st (timeToMinutes (endTime st)) ?q (initLoop st ?alloc rem tot) = Some s"
    "day = \<lparr> date = d, blocks = finishDay st (ls_blocks s) \<rparr>"
    "rem' = remainingHours s" "tot' = totalMinutesPerSkill s"
    by (rule processDay_Pushed)
  have a0: "acctInv (getOr0 ?alloc) (getOr0 rem) (getOr0 tot) (initLoop st ?alloc rem tot)"
    by (simp add: acctInv_def)
  have n0: "\<forall>k. 0 \<le> getOr0 (dailyAllocation (initLoop st ?alloc rem tot)) k"
    using dailyAllocationFor_bounds(1) [OF s(1) refl s(2)] by simp
  from while_loop_acct [OF s(3) a0 n0]
  have acc: "acctInv (getOr0 ?alloc) (getOr0 rem) (getOr0 tot) s"
    and slack: "- (5/2) < getOr0 (dailyAllocation s) k" by simp_all
  from acc s(4,5) show "getOr0 rem' k = getOr0 rem k - workSum k (blocks day)"
    by (simp add: acctInv_def)
  from acc s(4,6) show "getOr0 tot' k = getOr0 tot k + workSum k (blocks day)"
    by (simp add: acctInv_def)
  have own: "ownerInv ?q (ls_blocks s)"
    by (rule while_loop_owner [OF s(3)]) (simp_all add: ownerInv_def skillQueueFor_nonempty s(2))
  show "workSum k (blocks day) = 0
         \<or> (0 < getOr0 rem k \<and> workSum k (blocks day) < getOr0 rem k + 5)"
  proof (cases "k \<in> skill_id ` set ?active")
    case False
    with own have "\<forall>b \<in> set (ls_blocks s). b_type b = Work \<longrightarrow> skillId b \<noteq> Some k"
      unfolding ownerInv_def by fastforce
    then have "workSum k (ls_blocks s) = 0" by (rule workSum_foreign)
    with s(4) show ?thesis by simp
  next
    case True
    then have pos: "0 < getOr0 rem k" using active_remaining by blast
    have "getOr0 ?alloc k \<le> max 0 (getOr0 rem k + 5/2)"
      by (rule dailyAllocationFor_bounds(2) [OF s(1) refl s(2)])
    with pos have up: "getOr0 ?alloc k \<le> getOr0 rem k + 5/2" by simp
    from acc have "workSum k (ls_blocks s) = getOr0 ?alloc k - getOr0 (dailyAllocation s) k"
      by (simp add: acctInv_def)
    with slack up have "workSum k (ls_blocks s) < getOr0 rem k + 5" by simp
    with pos s(4) show ?thesis by simp
  qed
qed

lemma schedWork_simps [simp]:
  "schedWork k [] = 0" "schedWork k (ds @ [d]) = schedWork k ds + workSum k (blocks d)"
  by (simp_all add: schedWork_def)

lemma schedAllWork_simps [simp]:
  "schedAllWork [] = 0" "schedAllWork (ds @ [d]) = schedAllWork ds + allWork (blocks d)"
  by (simp_all add: schedAllWork_def)

lemma forDates_rule:
  assumes "forDates st skills ds g = Some (Inr g')" "P g"
    and "\<And>g d day rem tot. P g \<Longrightarrow>
           processDay st skills (dayIndex g) d (remaining_g g) (totals_g g)
             = Some (Pushed day rem tot) \<Longrightarrow>
           P \<lparr> generatedSchedule = generatedSchedule g @ [day], dayIndex = dayIndex g + 1,
               remaining_g = rem, totals_g = tot \<rparr>"
  shows "P g'"
  using assms(1,2)
proof (induction ds arbitrary: g)
  case Nil
  then show ?case by simp
next
  case (Cons d ds)
  show ?case
  proof (cases "processDay st skills (dayIndex g) d (remaining_g g) (totals_g g)")
    case None
    with Cons.prems show ?thesis by simp
  next
    case (Some r)
    show ?thesis
    proof (cases r)
      case (Thrown e)
      with Some Cons.prems show ?thesis by simp
    next
      case Continued
      with Some Cons.prems have "forDates st skills ds g = Some (Inr g')" by simp
      then show ?thesis using Cons.prems(2) by (rule Cons.IH)
    next
      case Broke
      with Some Cons.prems show ?thesis by simp
    next
      case (Pushed day rem tot)
      let ?g = "\<lparr> generatedSchedule = generatedSchedule g @ [day], dayIndex = dayIndex g + 1,
               remaining_g = rem, totals_g = tot \<rparr>"
      from Some Pushed Cons.prems have run: "forDates st skills ds ?g = Some (Inr g')" by simp
      have "P ?g" using Cons.prems(2) Some [unfolded Pushed] by (rule assms(3))
      with run show ?thesis by (rule Cons.IH)
    qed
  qed
qed

lemma ledger_step:
  assumes "ledger R g"
    "processDay st skills (dayIndex g) d (remaining_g g) (totals_g g) = Some (Pushed day rem tot)"
  shows "ledger R \<lparr> generatedSchedule = generatedSchedule g @ [day], dayIndex = dayIndex g + 1,
               remaining_g = rem, totals_g = tot \<rparr>"
  unfolding ledger_def
proof (intro allI)
  fix k
  note a = processDay_acct [OF assms(2), of k]
  from assms(1) have b: "getOr0 (totals_g g) k = schedWork k (generatedSchedule g)"
    "getOr0 (remaining_g g) k = R k - schedWork k (generatedSchedule g)"
    "schedWork k (generatedSchedule g) = 0 \<or> - 5 < getOr0 (remaining_g g) k"
    unfolding ledger_def by blast+
  let ?g = "\<lparr> generatedSchedule = generatedSchedule g @ [day], dayIndex = dayIndex g + 1,
               remaining_g = rem, totals_g = tot \<rparr>"
  have 1: "getOr0 (totals_g ?g) k = schedWork k (generatedSchedule ?g)"
    using a(2) b(1) by simp
  have 2: "getOr0 (remaining_g ?g) k = R k - schedWork k (generatedSchedule ?g)"
    using a(1) b(2) by simp
  have 3: "schedWork k (generatedSchedule ?g) = 0 \<or> - 5 < getOr0 (remaining_g ?g) k"
    using a(1,3) b(3) by auto
  from 1 2 3 show "getOr0 (totals_g ?g) k = schedWork k (generatedSchedule ?g)
        \<and> getOr0 (remaining_g ?g) k = R k - schedWork k (generatedSchedule ?g)
        \<and> (schedWork k (generatedSchedule ?g) = 0 \<or> - 5 < getOr0 (remaining_g ?g) k)"
    by blast
qed

lemma getOr0_newMap_zero: "getOr0 (newMap (map (\<lambda>s. (f s, 0)) xs)) k = 0"
proof (cases "map_of (newMap (map (\<lambda>s. (f s, 0)) xs)) k")
  case None
  then show ?thesis by (simp add: getOr0_def)
next
  case (Some v)
  from map_of_newMap_in [OF this] have "v = 0" by auto
  with Some show ?thesis by (simp add: getOr0_def)
qed

lemma getOr0_newMap_distinct:
  assumes "distinct (map f xs)" "x \<in> set xs"
  shows "getOr0 (newMap (map (\<lambda>s. (f s, h s)) xs)) (f x) = h x"
proof -
  have d: "distinct (map fst (map (\<lambda>s. (f s, h s)) xs))" using assms(1) by (simp add: comp_def)
  have "(f x, h x) \<in> set (map (\<lambda>s. (f s, h s)) xs)" using assms(2) by auto
  with d have "map_of (map (\<lambda>s. (f s, h s)) xs) (f x) = Some (h x)" by (rule map_of_is_SomeI)
  then show ?thesis by (simp add: getOr0_def newMap_distinct [OF d])
qed

lemma ledger_init:
  "ledger (getOr0 (newMap (map (\<lambda>s. (skill_id s, estHours s * 60)) skills))) (initGen skills)"
  by (simp add: ledger_def initGen_def getOr0_newMap_zero)

lemma generateSchedule_Inr:
  assumes "generateSchedule today skills st = Some (Inr (sched, summ))"
  obtains ds g where "forDates st skills ds (initGen skills) = Some (Inr g)"
    "sched = generatedSchedule g" "summ = summaryOf skills (totals_g g)" "sched \<noteq> []"
proof -
  define ds where "ds = (if mode st = Monthly then getDatesInRange (startDate st) (endDate st)
                   else [today])"
  from assms have "(case forDates st skills ds (initGen skills) of
              None \<Rightarrow> None
            | Some (Inl e) \<Rightarrow> Some (Inl e)
            | Some (Inr g) \<Rightarrow>
                (if generatedSchedule g = [] then Some (Inl EmptyScheduleError)
                 else Some (Inr (generatedSchedule g, summaryOf skills (totals_g g)))))
        = Some (Inr (sched, summ))"
    unfolding generateSchedule_def Let_def ds_def by (simp split: if_splits)
  then obtain g where "forDates st skills ds (initGen skills) = Some (Inr g)"
    "sched = generatedSchedule g" "summ = summaryOf skills (totals_g g)" "sched \<noteq> []"
    by (auto split: option.splits sum.splits if_splits)
  then show ?thesis by (rule that)
qed

lemma specWeight_eq: "specWeight p = PRIORITY_WEIGHTS p"
  by (cases p) (simp_all add: specWeight_def PRIORITY_WEIGHTS_def)

lemma scenarioB_run:
  "generateSchedule 0 scenarioB_skills scenarioB_settings
     = Some (Inr (scenarioB_schedule, scenarioB_summary))"
  by code_simp

subsection \<open>The totals over the days\<close>

lemma set_activeSkills: "set (activeSkills skills rem) \<subseteq> set skills"
  by (auto simp: activeSkills_def)

lemma totalsLedger_step:
  assumes "totalsLedger K g" "skill_id ` set skills \<subseteq> set K"
    "processDay st skills (dayIndex g) d (remaining_g g) (totals_g g) = Some (Pushed day rem tot)"
  shows "totalsLedger K \<lparr> generatedSchedule = generatedSchedule g @ [day],
           dayIndex = dayIndex g + 1, remaining_g = rem, totals_g = tot \<rparr>"
proof -
  let ?active = "activeSkills skills (remaining_g g)"
  let ?q = "skillQueueFor (dayIndex g) ?active"
  from assms(3) obtain s where s: "?active \<noteq> []"
    "while_loop st (timeToMinutes (endTime st)) ?q
       (initLoop st (dailyAllocationFor (allocatableTimeForDay st) ?active (remaining_g g))
          (remaining_g g) (totals_g g)) = Some s"
    "day = \<lparr> date = d, blocks = finishDay st (ls_blocks s) \<rparr>"
    "tot = totalMinutesPerSkill s"
    by (rule processDay_Pushed)
  have i: "totalsInv K (schedAllWork (generatedSchedule g))
      (initLoop st (dailyAllocationFor (allocatableTimeForDay st) ?active (remaining_g g))
          (remaining_g g) (totals_g g))"
    using assms(1) by (simp add: totalsInv_def totalsLedger_def)
  have q: "?q \<noteq> []" using s(1) by (rule skillQueueFor_nonempty)
  have k: "skill_id ` set ?q \<subseteq> set K" using assms(2) set_activeSkills by fastforce
  from while_loop_totals [OF s(2) i q k]
  have "totalsInv K (schedAllWork (generatedSchedule g)) s" .
  moreover have "getOr0 tot k = getOr0 (totals_g g) k + workSum k (blocks day)" for k
    by (rule processDay_acct(2) [OF assms(3)])
  ultimately show ?thesis using s(3,4) assms(1)
    by (simp add: totalsInv_def totalsLedger_def)
qed

lemma schedPositive_step:
  assumes "schedPositive (generatedSchedule g)" "0 < workBlockMins st"
    "processDay st skills (dayIndex g) d (remaining_g g) (totals_g g) = Some (Pushed day rem tot)"
  shows "schedPositive (generatedSchedule g @ [day])"
proof -
  from assms(3) obtain s where s:
    "while_loop st (timeToMinutes (endTime st))
       (skillQueueFor (dayIndex g) (activeSkills skills (remaining_g g)))
       (initLoop st (dailyAllocationFor (allocatableTimeForDay st)
          (activeSkills skills (remaining_g g)) (remaining_g g))
          (remaining_g g) (totals_g g)) = Some s"
    "day = \<lparr> date = d, blocks = finishDay st (ls_blocks s) \<rparr>"
    by (rule processDay_Pushed)
  have "workPositive (ls_blocks s)"
    by (rule while_loop_workPositive [OF s(1) _ assms(2)]) (simp add: workPositive_def)
  then have "workPositive (blocks day)" using s(2) by (simp add: workPositive_finishDay)
  with assms(1) show ?thesis by (simp add: schedPositive_def)
qed

lemma schedPositive_allWork: "schedPositive sched \<Longrightarrow> 0 \<le> schedAllWork sched"
  unfolding schedPositive_def schedAllWork_def
  by (rule sum_list_nonneg) (auto simp: workPositive_allWork)

lemma schedPositive_work: "schedPositive sched \<Longrightarrow> 0 \<le> schedWork k sched"
  unfolding schedPositive_def schedWork_def
  by (rule sum_list_nonneg) (auto simp: workPositive_workSum)

lemma getOr0_entry: "distinct (map fst m) \<Longrightarrow> (k, v) \<in> set m \<Longrightarrow> getOr0 m k = v"
  by (simp add: getOr0_def)

lemma sum_getOr0_keys:
  assumes "distinct (map fst m)"
  shows "sum_list (map (\<lambda>k. getOr0 m k) (map fst m)) = sum_list (mapValues m)"
proof -
  have "map (\<lambda>kv. getOr0 m (fst kv)) m = map snd m"
    using assms by (intro map_cong refl) (auto simp: getOr0_entry)
  then have "sum_list (map (\<lambda>kv. getOr0 m (fst kv)) m) = sum_list (map snd m)"
    by (rule arg_cong)
  then show ?thesis by (simp add: mapValues_def comp_def)
qed

lemma distinct_newMap: "distinct (map fst (newMap kvs))"
  by (induction kvs rule: rev_induct) (simp_all add: newMap_Nil newMap_snoc distinct_update)

lemma newMap_entry: "(k, v) \<in> set (newMap kvs) \<Longrightarrow> (k, v) \<in> set kvs"
  using distinct_newMap [of kvs] map_of_newMap_in [of kvs k v] by simp

lemma sum_list_all_zero: "(\<And>x. x \<in> set xs \<Longrightarrow> x = 0) \<Longrightarrow> sum_list xs = (0::rat)"
  by (induction xs) auto

lemma sum_newMap_zero: "sum_list (mapValues (newMap (map (\<lambda>s. (f s, 0)) xs))) = 0"
  unfolding mapValues_def
proof (rule sum_list_all_zero)
  fix x
  assume "x \<in> set (map snd (newMap (map (\<lambda>s. (f s, 0)) xs)))"
  then obtain k where "(k, x) \<in> set (newMap (map (\<lambda>s. (f s, 0)) xs))" by auto
  from newMap_entry [OF this] show "x = 0" by auto
qed

text \<open>What the run of the assembler establishes for the summary.\<close>

lemma generateSchedule_totals:
  assumes "generateSchedule today skills st = Some (Inr (sched, summ))"
  obtains tot where "summ = summaryOf skills tot"
    "sum_list (mapValues tot) = schedAllWork sched"
    "\<forall>k. getOr0 tot k = schedWork k sched"
    "map fst tot = map fst (newMap (map (\<lambda>s. (skill_id s, 0::rat)) skills))"
    "0 < workBlockMins st \<longrightarrow> schedPositive sched"
proof -
  let ?K = "map fst (newMap (map (\<lambda>s. (skill_id s, 0::rat)) skills))"
  from assms obtain ds g where g: "forDates st skills ds (initGen skills) = Some (Inr g)"
    "sched = generatedSchedule g" "summ = summaryOf skills (totals_g g)"
    by (rule generateSchedule_Inr)
  have K: "skill_id ` set skills \<subseteq> set ?K"
    using keys_newMap [of "map (\<lambda>s. (skill_id s, 0::rat)) skills"] by (auto simp: image_image)
  have "totalsLedger ?K g"
  proof (rule forDates_rule [OF g(1), where P = "totalsLedger ?K"])
    have "sum_list (mapValues (newMap (map (\<lambda>s. (skill_id s, 0::rat)) skills))) = 0"
      by (rule sum_newMap_zero)
    then show "totalsLedger ?K (initGen skills)"
      by (simp add: totalsLedger_def initGen_def getOr0_newMap_zero)
  next
    fix g d day rem tot
    assume "totalsLedger ?K g"
      "processDay st skills (dayIndex g) d (remaining_g g) (totals_g g)
         = Some (Pushed day rem tot)"
    then show "totalsLedger ?K \<lparr> generatedSchedule = generatedSchedule g @ [day],
        dayIndex = dayIndex g + 1, remaining_g = rem, totals_g = tot \<rparr>"
      using totalsLedger_step [OF _ K] by blast
  qed
  then have 1: "sum_list (mapValues (totals_g g)) = schedAllWork sched"
    and 2: "\<forall>k. getOr0 (totals_g g) k = schedWork k sched"
    and 3: "map fst (totals_g g) = ?K"
    unfolding totalsLedger_def g(2) by blast+
  have "schedPositive sched" if w: "0 < workBlockMins st"
    unfolding g(2)
  proof (rule forDates_rule [OF g(1), where P = "\<lambda>g. schedPositive (generatedSchedule g)"])
    show "schedPositive (generatedSchedule (initGen skills))"
      by (simp add: schedPositive_def initGen_def)
  next
    fix g :: gen_state and d day rem tot
    assume "schedPositive (generatedSchedule g)"
      "processDay st skills (dayIndex g) d (remaining_g g) (totals_g g)
         = Some (Pushed day rem tot)"
    then show "schedPositive (generatedSchedule \<lparr> generatedSchedule = generatedSchedule g @ [day],
        dayIndex = dayIndex g + 1, remaining_g = rem, totals_g = tot \<rparr>)"
      using schedPositive_step [OF _ w] by simp
  qed
  then have 4: "0 < workBlockMins st \<longrightarrow> schedPositive sched" by simp
  from g(3) 1 2 3 4 show ?thesis by (rule that)
qed

subsection \<open>Well-formed blocks\<close>





lemma lunchHit_Some: "lunchHit lo t = Some l \<Longrightarrow>
    lo = Some l \<and> timeToMinutes (lunch_start l) \<le> t \<and> t < timeToMinutes (lunch_start l) + duration l"
  by (auto simp: lunchHit_def split: option.splits if_splits)




subsection \<open>Buffer fill keeps the blocks well-formed and sorted\<close>


lemma fillGaps_nonempty: "t < we \<Longrightarrow> fillGaps we t bs \<noteq> []"
  by (cases bs) (simp_all add: Let_def)



subsection \<open>The lunch block\<close>

lemma minutesToTime_timeToMinutes:
  assumes "wellFormedTime t"
  shows "minutesToTime (timeToMinutes t) = t"
proof -
  obtain h m where t: "t = HHMM h m" by (cases t)
  from assms t have h: "of_int \<lfloor>h\<rfloor> = h" "0 \<le> h" and m: "of_int \<lfloor>m\<rfloor> = m" "0 \<le> m" "m \<le> 59"
    by (simp_all add: wellFormedTime_def)
  have m60: "m < 60" using m(3) by simp
  have e: "(h * 60 + m) / 60 = h + m / 60" by (simp add: add_divide_distrib)
  have fl: "\<lfloor>h + m / 60\<rfloor> = \<lfloor>h\<rfloor>"
  proof (rule floor_unique)
    show "of_int \<lfloor>h\<rfloor> \<le> h + m / 60" unfolding h(1) using m(2) by simp
    show "h + m / 60 < of_int \<lfloor>h\<rfloor> + 1" unfolding h(1) using m60 by simp
  qed
  have nn: "0 \<le> h + m / 60" using h(2) m(2) by simp
  have "js_rem (h * 60 + m) 60 = m"
    unfolding js_rem_def e using nn by (simp only: if_True fl h(1), simp?)
  moreover have "of_int \<lfloor>(h * 60 + m) / 60\<rfloor> = h"
    unfolding e fl by (rule h(1))
  ultimately show ?thesis
    unfolding t minutesToTime_def timeToMinutes_def by (simp only: hhmm.sel)
qed

lemma lunchBlocks_empty_last:
  "lunchBlocks bs = [] \<Longrightarrow> bs = [] \<or> b_type (last bs) \<noteq> Lunch"
  by (cases bs rule: rev_cases) (auto simp: lunchBlocks_def)

lemma lunchBlocks_takeBreak [simp]:
  "lunchBlocks (ls_blocks (takeBreak st we s)) = lunchBlocks (ls_blocks s)"
  by (simp add: takeBreak_def)

lemma currentTime_takeBreak: "currentTime s \<le> currentTime (takeBreak st we s)"
  by (simp add: takeBreak_def)

lemma lunchInv_step:
  assumes "lunchInv l s" "lunch st = Some l" "0 < workBlockMins st"
    "loop_body st we q s = r" "r = Inl t \<or> r = Inr t"
  shows "lunchInv l t"
  using assms(4)
proof (cases rule: loop_body_cases)
  case (lunch l')
  from lunchHit_Some [OF lunch(1)] assms(2)
  have l: "l' = l" "currentTime s < timeToMinutes (lunch_start l) + duration l" by auto
  with assms(1) have e: "lunchBlocks (ls_blocks s) = []" by (auto simp: lunchInv_def)
  from lunchBlocks_empty_last [OF this]
  have "ls_blocks (lunchStep l s) = ls_blocks s @ [lunchBlock l]" by (auto simp: lunchStep_def)
  with e lunch(2) l(1) assms(5) show ?thesis by (auto simp: lunchInv_def)
next
  case (clip sk left)
  with assms(1,5) show ?thesis by (auto simp: lunchInv_def split: if_splits)
next
  case (work sk left d)
  let ?u = "(emitWork sk left d (s \<lparr> queueIndex := queueIndex s + 1 \<rparr>))
                  \<lparr> currentTime := currentTime s + d \<rparr>"
  have d: "0 < d" using work(4,5) assms(3) by simp
  have t: "t = takeBreak st we ?u" using work(7) assms(5) by auto
  have "currentTime s \<le> currentTime t"
    unfolding t using currentTime_takeBreak [of ?u st we] d by simp
  moreover have "lunchBlocks (ls_blocks t) = lunchBlocks (ls_blocks s)"
    unfolding t by simp
  ultimately show ?thesis using assms(1) by (auto simp: lunchInv_def)
qed (use assms in \<open>auto simp: lunchInv_def\<close>)

lemma while_loop_lunch:
  assumes "while_loop st we q s = Some s'" "lunchInv l s" "lunch st = Some l"
    "0 < workBlockMins st"
  shows "lunchInv l s'"
proof (rule while_loop_inv [OF assms(1), where I = "lunchInv l"])
  show "lunchInv l s" by fact
next
  fix s t
  assume "lunchInv l s" "loop_body st we q s = Inl t \<or> loop_body st we q s = Inr t"
  then show "lunchInv l t"
    using lunchInv_step [where s = s and t = t and we = we and q = q, OF _ assms(3,4) refl]
    by auto
qed

lemma lunchBlocks_finishDay:
  assumes "lunch st = Some l" "lunchBlocks bs = [] \<or> lunchBlocks bs = [lunchBlock l]"
    "timeToMinutes (startTime st) \<le> timeToMinutes (lunch_start l)"
    "timeToMinutes (lunch_start l) < timeToMinutes (endTime st)"
  shows "lunchBlocks (finishDay st bs) = [lunchBlock l]"
proof -
  have "list_ex (\<lambda>b. b_type b = Lunch) bs \<longleftrightarrow> lunchBlocks bs \<noteq> []"
    by (auto simp: lunchBlocks_def list_ex_iff filter_empty_conv)
  with assms have "lunchBlocks (lunchBackfill st bs) = [lunchBlock l]"
    by (auto simp: lunchBackfill_def)
  then show ?thesis
    by (simp add: finishDay_def) (simp add: lunchBlocks_def filter_sort)
qed

lemma processDay_lunch:
  assumes "processDay st skills dayIx d rem tot = Some (Pushed day rem' tot')"
    "lunch st = Some l" "0 < workBlockMins st"
    "timeToMinutes (startTime st) \<le> timeToMinutes (lunch_start l)"
    "timeToMinutes (lunch_start l) < timeToMinutes (endTime st)"
  shows "lunchBlocks (blocks day) = [lunchBlock l]"
proof -
  from assms(1) obtain s where s:
    "while_loop st (timeToMinutes (endTime st))
       (skillQueueFor dayIx (activeSkills skills rem))
       (initLoop st (dailyAllocationFor (allocatableTimeForDay st) (activeSkills skills rem) rem)
          rem tot) = Some s"
    "day = \<lparr> date = d, blocks = finishDay st (ls_blocks s) \<rparr>"
    by (rule processDay_Pushed)
  have "lunchInv l s"
    by (rule while_loop_lunch [OF s(1) _ assms(2,3)]) (simp add: lunchInv_def)
  then have "lunchBlocks (ls_blocks s) = [] \<or> lunchBlocks (ls_blocks s) = [lunchBlock l]"
    by (auto simp: lunchInv_def)
  from lunchBlocks_finishDay [OF assms(2) this assms(4,5)] s(2) show ?thesis by simp
qed

subsection \<open>Termination of the loop\<close>

lemma m_time_mono:
  assumes "0 < workBlockMins st" "currentTime s \<le> currentTime t"
  shows "m_time st we t \<le> m_time st we s"
proof -
  have "(we - currentTime t) / workBlockMins st \<le> (we - currentTime s) / workBlockMins st"
    using assms by (simp add: divide_right_mono)
  then show ?thesis unfolding m_time_def by (intro nat_mono ceiling_mono)
qed

lemma m_time_less:
  assumes "0 < workBlockMins st" "currentTime s < we"
    "currentTime s + workBlockMins st \<le> currentTime t"
  shows "m_time st we t < m_time st we s"
proof -
  let ?w = "workBlockMins st"
  have "(we - currentTime t) / ?w \<le> (we - currentTime s - ?w) / ?w"
    using assms(1,3) by (intro divide_right_mono) simp_all
  also have "\<dots> = (we - currentTime s) / ?w - 1"
    using assms(1) by (simp add: diff_divide_distrib)
  finally have "\<lceil>(we - currentTime t) / ?w\<rceil> \<le> \<lceil>(we - currentTime s) / ?w - 1\<rceil>"
    by (rule ceiling_mono)
  then have a: "\<lceil>(we - currentTime t) / ?w\<rceil> \<le> \<lceil>(we - currentTime s) / ?w\<rceil> - 1" by simp
  have "0 < (we - currentTime s) / ?w" using assms(1,2) by simp
  then have "0 < \<lceil>(we - currentTime s) / ?w\<rceil>" by (simp add: ceiling_less_iff)
  with a show ?thesis unfolding m_time_def by linarith
qed

lemma filter_pos_update:
  assumes "map_of m k = Some old" "0 < old"
  shows "length (filter (\<lambda>kv. 0 < snd kv) (AList.update k v m))
         = (if 0 < v then length (filter (\<lambda>kv. 0 < (snd kv :: rat)) m)
            else length (filter (\<lambda>kv. 0 < snd kv) m) - 1)
       \<and> 0 < length (filter (\<lambda>kv. 0 < snd kv) m)"
  using assms
proof (induction m)
  case Nil
  then show ?case by simp
next
  case (Cons a m)
  obtain k' v' where a: "a = (k', v')" by (cases a)
  show ?case
  proof (cases "k' = k")
    case True
    with Cons.prems a show ?thesis by simp
  next
    case False
    with Cons.prems a have "map_of m k = Some old" by simp
    from Cons.IH [OF this Cons.prems(2)] a False show ?thesis by auto
  qed
qed

lemma getOr0_pos_Some: "0 < getOr0 m k \<Longrightarrow> map_of m k = Some (getOr0 m k)"
  by (cases "map_of m k") (simp_all add: getOr0_def)

lemma posAt_exists:
  assumes "allocKeysInv q s" "q \<noteq> []"
    "\<not> list_all (\<lambda>t. t \<le> 0) (mapValues (dailyAllocation s))"
  shows "\<exists>n. posAt q s (queueIndex s + n)"
proof -
  from assms(3) obtain k v where kv: "(k, v) \<in> set (dailyAllocation s)" "0 < v"
    by (auto simp: list_all_iff mapValues_def not_le)
  from assms(1) kv(1) have g: "getOr0 (dailyAllocation s) k = v"
    by (simp add: allocKeysInv_def getOr0_entry)
  from assms(1) kv(1) have "k \<in> skill_id ` set q" by (force simp: allocKeysInv_def)
  then obtain j where j: "j < length q" "skill_id (q ! j) = k"
    by (auto simp: in_set_conv_nth)
  let ?L = "length q" and ?i = "queueIndex s"
  have L: "1 \<le> ?L" using assms(2) by (simp add: Suc_le_eq)
  have "1 * (?i + 1) \<le> ?L * (?i + 1)" using L by (rule mult_le_mono1)
  then have le: "?i \<le> ?L * (?i + 1)" by simp
  have "(?i + (?L * (?i + 1) - ?i + j)) mod ?L = (?L * (?i + 1) + j) mod ?L"
    using le by simp
  also have "\<dots> = j mod ?L" by (rule mod_mult_self4)
  also have "\<dots> = j" using j(1) by (rule mod_less)
  finally have "posAt q s (?i + (?L * (?i + 1) - ?i + j))"
    using j(2) g kv(2) by (simp add: posAt_def)
  then show ?thesis ..
qed

lemma m_skip_less:
  assumes "\<exists>n. posAt q s (queueIndex s + n)" "\<not> posAt q s (queueIndex s)"
    "dailyAllocation t = dailyAllocation s" "queueIndex t = queueIndex s + 1"
  shows "m_skip q t < m_skip q s"
proof -
  let ?n = "LEAST n. posAt q s (queueIndex s + n)"
  from assms(1) have p: "posAt q s (queueIndex s + ?n)" by (rule LeastI_ex)
  with assms(2) have "?n \<noteq> 0" by (metis add.right_neutral)
  then obtain n' where n': "?n = Suc n'" by (cases ?n) auto
  have pt: "posAt q t = posAt q s" by (rule ext) (simp add: posAt_def assms(3))
  from p n' have "posAt q t (queueIndex t + n')" by (simp add: pt assms(4))
  then have "(LEAST n. posAt q t (queueIndex t + n)) \<le> n'" by (rule Least_le)
  with n' show ?thesis by (simp add: m_skip_def)
qed

lemma allocKeysInv_emitWork:
  assumes "allocKeysInv q s" "sk \<in> set q"
  shows "allocKeysInv q (emitWork sk left d (s \<lparr> queueIndex := n \<rparr>))"
  using assms by (auto simp: allocKeysInv_def distinct_update dom_update)

lemma allocKeysInv_step:
  assumes "allocKeysInv q s" "q \<noteq> []" "loop_body st we q s = r" "r = Inl t \<or> r = Inr t"
  shows "allocKeysInv q t"
  using assms(3)
proof (cases rule: loop_body_cases)
  case (clip sk left)
  from clip(2) assms(2) have sk: "sk \<in> set q" by simp
  have a: "allocKeysInv q (emitWork sk left (roundTo5 (we - currentTime s))
             (s \<lparr> queueIndex := queueIndex s + 1 \<rparr>))"
    by (rule allocKeysInv_emitWork [OF assms(1) sk])
  have b: "allocKeysInv q (s \<lparr> queueIndex := queueIndex s + 1 \<rparr>)"
    using assms(1) by (simp add: allocKeysInv_def)
  from clip(6) assms(4)
  have "t = emitWork sk left (roundTo5 (we - currentTime s))
             (s \<lparr> queueIndex := queueIndex s + 1 \<rparr>)
      \<or> t = s \<lparr> queueIndex := queueIndex s + 1 \<rparr>"
    by (auto split: if_splits)
  with a b show ?thesis by auto
next
  case (work sk left d)
  from work(2) assms(2) have sk: "sk \<in> set q" by simp
  have "allocKeysInv q (emitWork sk left d (s \<lparr> queueIndex := queueIndex s + 1 \<rparr>))"
    by (rule allocKeysInv_emitWork [OF assms(1) sk])
  moreover have "t = takeBreak st we ((emitWork sk left d (s \<lparr> queueIndex := queueIndex s + 1 \<rparr>))
                  \<lparr> currentTime := currentTime s + d \<rparr>)"
    using work(7) assms(4) by auto
  ultimately show ?thesis by (simp add: allocKeysInv_def)
next
  case (lunch l)
  with assms(4) have "t = lunchStep l s" by auto
  with assms(1) show ?thesis by (simp add: allocKeysInv_def)
next
  case skip_break
  with assms(4) have "t = s \<lparr> queueIndex := queueIndex s + 1 \<rparr>" by auto
  with assms(1) show ?thesis by (simp add: allocKeysInv_def)
next
  case skip
  with assms(4) have "t = s \<lparr> queueIndex := queueIndex s + 1 \<rparr>" by auto
  with assms(1) show ?thesis by (simp add: allocKeysInv_def)
qed

lemma loop_step_decreases:
  assumes "allocKeysInv q s" "q \<noteq> []" "0 < workBlockMins st" "currentTime s < we"
    "loop_body st we q s = Inr t"
  shows "(t, s) \<in> measures [m_time st we, m_pos, m_lunch st, m_skip q]"
  using assms(5)
proof (cases rule: loop_body_cases)
  case (lunch l)
  from lunchHit_Some [OF lunch(1)]
  have l: "lunch st = Some l" "currentTime s < timeToMinutes (lunch_start l) + duration l"
    by simp_all
  from lunch(2) have t: "t = lunchStep l s" by simp
  have "currentTime s \<le> currentTime t" using l(2) by (simp add: t)
  with assms(3) have 1: "m_time st we t \<le> m_time st we s" by (rule m_time_mono)
  have 2: "m_pos t = m_pos s" by (simp add: m_pos_def t)
  have 3: "m_lunch st t < m_lunch st s" using l by (simp add: m_lunch_def t)
  from 1 2 3 show ?thesis by auto
next
  case skip_break
  then show ?thesis by simp
next
  case skip
  from skip(4) have t: "t = s \<lparr> queueIndex := queueIndex s + 1 \<rparr>" by simp
  have e: "\<exists>n. posAt q s (queueIndex s + n)"
    using assms(1,2) skip(3) by (rule posAt_exists)
  have n: "\<not> posAt q s (queueIndex s)" using skip(2) by (simp add: posAt_def)
  have 4: "m_skip q t < m_skip q s" using e n by (rule m_skip_less) (simp_all add: t)
  have 1: "m_time st we t = m_time st we s" by (simp add: t m_time_def)
  have 2: "m_pos t = m_pos s" by (simp add: t m_pos_def)
  have 3: "m_lunch st t = m_lunch st s" by (cases "lunch st") (simp_all add: t m_lunch_def)
  from 1 2 3 4 show ?thesis by simp
next
  case (clip sk left)
  then show ?thesis by simp
next
  case (work sk left d)
  let ?u = "(emitWork sk left d (s \<lparr> queueIndex := queueIndex s + 1 \<rparr>))
                  \<lparr> currentTime := currentTime s + d \<rparr>"
  from work(7) have t: "t = takeBreak st we ?u" by simp
  have d: "0 < d" using work(4,5) assms(3) by simp
  have ct: "currentTime s + d \<le> currentTime t"
    unfolding t using currentTime_takeBreak [of ?u st we] by simp
  have al: "dailyAllocation t = AList.update (skill_id sk) (left - d) (dailyAllocation s)"
    by (simp add: t)
  have "map_of (dailyAllocation s) (skill_id sk) = Some left"
    using getOr0_pos_Some [of "dailyAllocation s" "skill_id sk"] work(3,4) by simp
  from filter_pos_update [OF this work(4), of "left - d"]
  have mp: "m_pos t = (if 0 < left - d then m_pos s else m_pos s - 1)" "0 < m_pos s"
    by (simp_all add: m_pos_def al)
  show ?thesis
  proof (cases "workBlockMins st \<le> left")
    case True
    with work(5) have "d = workBlockMins st" by simp
    with ct have "currentTime s + workBlockMins st \<le> currentTime t" by simp
    with assms(3,4) have "m_time st we t < m_time st we s" by (rule m_time_less)
    then show ?thesis by simp
  next
    case False
    with work(5) have "left - d = 0" by simp
    with mp have 2: "m_pos t < m_pos s" by simp
    have "currentTime s \<le> currentTime t" using ct d by simp
    with assms(3) have "m_time st we t \<le> m_time st we s" by (rule m_time_mono)
    with 2 show ?thesis by auto
  qed
qed

lemma while_loop_terminates:
  assumes "allocKeysInv q s" "q \<noteq> []" "0 < workBlockMins st"
  shows "\<exists>s'. while_loop st we q s = Some s'"
  using assms(1)
proof (induction s
    rule: wf_induct_rule [OF wf_measures [of "[m_time st we, m_pos, m_lunch st, m_skip q]"]])
  case (1 s)
  show ?case
  proof (cases "currentTime s < we \<and> 0 < totalAllocatedToday s")
    case False
    have "while_loop st we q s = Some s"
      by (subst while_loop.simps) (simp only: False if_False simp_thms)
    then show ?thesis ..
  next
    case True
    show ?thesis
    proof (cases "loop_body st we q s")
      case (Inl t)
      have "while_loop st we q s = Some t"
        by (subst while_loop.simps) (simp only: True if_True Inl sum.case simp_thms)
      then show ?thesis ..
    next
      case (Inr t)
      have "(t, s) \<in> measures [m_time st we, m_pos, m_lunch st, m_skip q]"
        using "1.prems" assms(2,3) _ Inr by (rule loop_step_decreases) (simp add: True)
      moreover have "allocKeysInv q t"
        using "1.prems" assms(2) Inr by (rule allocKeysInv_step) simp
      ultimately obtain s' where s': "while_loop st we q t = Some s'" using "1.IH" by blast
      have "while_loop st we q s = Some s'"
        by (subst while_loop.simps) (simp only: True if_True Inr sum.case s' simp_thms)
      then show ?thesis ..
    qed
  qed
qed

subsection \<open>Every day and every run returns\<close>

lemma allocKeysInv_init:
  "allocKeysInv (skillQueueFor i active)
     (initLoop st (dailyAllocationFor a active rem) rem tot)"
proof -
  have "fst ` set (dailyAllocationFor a active rem) = skill_id ` set active"
    unfolding dailyAllocationFor_def keys_newMap by (simp add: image_image Let_def)
  then show ?thesis
    by (simp add: allocKeysInv_def) (simp add: dailyAllocationFor_def distinct_newMap)
qed

lemma processDay_window:
  "timeToMinutes (endTime st) \<le> timeToMinutes (startTime st) \<Longrightarrow>
   processDay st skills i d rem tot = Some (Thrown InvalidWindowError)"
  by (simp add: processDay_def)

lemma processDay_no_time:
  "timeToMinutes (startTime st) < timeToMinutes (endTime st) \<Longrightarrow>
   allocatableTimeForDay st \<le> 0 \<Longrightarrow>
   processDay st skills i d rem tot = Some Continued"
  by (simp add: processDay_def)

lemma processDay_no_skill:
  "timeToMinutes (startTime st) < timeToMinutes (endTime st) \<Longrightarrow>
   0 < allocatableTimeForDay st \<Longrightarrow> activeSkills skills rem = [] \<Longrightarrow>
   processDay st skills i d rem tot = Some Broke"
  by (simp add: processDay_def)

lemma processDay_pushes:
  assumes "timeToMinutes (startTime st) < timeToMinutes (endTime st)"
    "0 < allocatableTimeForDay st" "activeSkills skills rem \<noteq> []" "0 < workBlockMins st"
  shows "\<exists>day rem' tot'. processDay st skills i d rem tot = Some (Pushed day rem' tot')"
proof -
  let ?active = "activeSkills skills rem"
  have "\<exists>s'. while_loop st (timeToMinutes (endTime st)) (skillQueueFor i ?active)
      (initLoop st (dailyAllocationFor (allocatableTimeForDay st) ?active rem) rem tot)
      = Some s'"
    using allocKeysInv_init skillQueueFor_nonempty [OF assms(3)] assms(4)
    by (rule while_loop_terminates)
  then obtain s' where "while_loop st (timeToMinutes (endTime st)) (skillQueueFor i ?active)
      (initLoop st (dailyAllocationFor (allocatableTimeForDay st) ?active rem) rem tot)
      = Some s'" ..
  moreover have "totalWeightOf ?active \<noteq> 0" using totalWeightOf_pos [OF assms(3)] by simp
  ultimately show ?thesis using assms(1,2,3) by (simp add: processDay_def)
qed

lemma processDay_returns:
  assumes "0 < workBlockMins st"
  shows "\<exists>r. processDay st skills i d rem tot = Some r"
proof (cases "timeToMinutes (startTime st) < timeToMinutes (endTime st)")
  case False
  then show ?thesis by (simp add: processDay_window)
next
  case w: True
  show ?thesis
  proof (cases "0 < allocatableTimeForDay st")
    case False
    with w show ?thesis by (simp add: processDay_no_time)
  next
    case a: True
    show ?thesis
    proof (cases "activeSkills skills rem = []")
      case True
      with w a show ?thesis by (simp add: processDay_no_skill)
    next
      case False
      from processDay_pushes [OF w a False assms] show ?thesis by blast
    qed
  qed
qed

lemma processDay_not_thrown:
  "timeToMinutes (startTime st) < timeToMinutes (endTime st) \<Longrightarrow>
   processDay st skills i d rem tot \<noteq> Some (Thrown e)"
  by (auto simp: processDay_def split: option.splits)

lemma forDates_returns:
  assumes "0 < workBlockMins st"
  shows "\<exists>r. forDates st skills ds g = Some r"
proof (induction ds arbitrary: g)
  case Nil
  show ?case by simp
next
  case (Cons d ds)
  from processDay_returns [OF assms]
  obtain r where r: "processDay st skills (dayIndex g) d (remaining_g g) (totals_g g) = Some r"
    by blast
  show ?case using r Cons.IH by (cases r) simp_all
qed

lemma forDates_window_ok:
  assumes "0 < workBlockMins st" "timeToMinutes (startTime st) < timeToMinutes (endTime st)"
  shows "\<exists>g'. forDates st skills ds g = Some (Inr g')
           \<and> (generatedSchedule g \<noteq> [] \<longrightarrow> generatedSchedule g' \<noteq> [])"
proof (induction ds arbitrary: g)
  case Nil
  show ?case by simp
next
  case (Cons d ds)
  from processDay_returns [OF assms(1)]
  obtain r where r: "processDay st skills (dayIndex g) d (remaining_g g) (totals_g g) = Some r"
    by blast
  show ?case
  proof (cases r)
    case (Thrown e)
    with r processDay_not_thrown [OF assms(2)] show ?thesis by blast
  next
    case Continued
    with r Cons.IH [of g] show ?thesis by simp
  next
    case Broke
    with r show ?thesis by simp
  next
    case (Pushed day rem tot)
    with r Cons.IH [of "\<lparr> generatedSchedule = generatedSchedule g @ [day],
        dayIndex = dayIndex g + 1, remaining_g = rem, totals_g = tot \<rparr>"]
    show ?thesis by auto
  qed
qed

lemma forDates_no_time:
  assumes "timeToMinutes (startTime st) < timeToMinutes (endTime st)"
    "allocatableTimeForDay st \<le> 0"
  shows "forDates st skills ds g = Some (Inr g)"
  by (induction ds) (simp_all add: processDay_no_time [OF assms])

lemma getDatesInRange_empty: "e < s \<Longrightarrow> getDatesInRange s e = []"
  by (subst getDatesInRange.simps) simp

lemma getDatesInRange_Cons: "s \<le> e \<Longrightarrow> getDatesInRange s e = s # getDatesInRange (s + 1) e"
  by (subst getDatesInRange.simps) simp

lemma generateSchedule_unfold:
  "generateSchedule today skills st =
     (let dates = (if mode st = Monthly then getDatesInRange (startDate st) (endDate st)
                   else [today])
      in if dates = [] \<and> mode st = Monthly then Some (Inl InvalidRangeError)
         else (case forDates st skills dates (initGen skills) of
              None \<Rightarrow> None
            | Some (Inl e) \<Rightarrow> Some (Inl e)
            | Some (Inr g) \<Rightarrow>
                (if generatedSchedule g = [] then Some (Inl EmptyScheduleError)
                 else Some (Inr (generatedSchedule g, summaryOf skills (totals_g g))))))"
  unfolding generateSchedule_def by (rule refl)

lemma dates_nonempty:
  assumes "\<not> (mode st = Monthly \<and> endDate st < startDate st)"
  obtains d ds where
    "(if mode st = Monthly then getDatesInRange (startDate st) (endDate st) else [today])
       = d # ds"
proof (cases "mode st = Monthly")
  case True
  with assms have "startDate st \<le> endDate st" by simp
  from getDatesInRange_Cons [OF this] True that show ?thesis by simp
next
  case False
  with that show ?thesis by simp
qed

lemma processDay_blocks_nonempty:
  assumes "processDay st skills i d rem tot = Some (Pushed day rem' tot')"
  shows "blocks day \<noteq> []"
proof -
  from assms obtain s :: loop_state where
    "timeToMinutes (startTime st) < timeToMinutes (endTime st)"
    "day = \<lparr> date = d, blocks = finishDay st (ls_blocks s) \<rparr>"
    by (rule processDay_Pushed)
  then show ?thesis by (simp add: finishDay_def fillGaps_nonempty)
qed

lemma generateSchedule_days_nonempty:
  assumes "generateSchedule today skills st = Some (Inr (sched, summ))"
  shows "list_all (\<lambda>d. blocks d \<noteq> []) sched \<and> length summ = length skills"
proof -
  from assms obtain ds g where g: "forDates st skills ds (initGen skills) = Some (Inr g)"
    "sched = generatedSchedule g" "summ = summaryOf skills (totals_g g)"
    by (rule generateSchedule_Inr)
  have "list_all (\<lambda>d. blocks d \<noteq> []) (generatedSchedule g)"
  proof (rule forDates_rule [OF g(1),
        where P = "\<lambda>g. list_all (\<lambda>d. blocks d \<noteq> []) (generatedSchedule g)"])
    show "list_all (\<lambda>d. blocks d \<noteq> []) (generatedSchedule (initGen skills))"
      by (simp add: initGen_def)
  next
    fix g :: gen_state and d day rem tot
    assume a: "list_all (\<lambda>d. blocks d \<noteq> []) (generatedSchedule g)"
      "processDay st skills (dayIndex g) d (remaining_g g) (totals_g g)
         = Some (Pushed day rem tot)"
    from processDay_blocks_nonempty [OF a(2)] a(1)
    show "list_all (\<lambda>d. blocks d \<noteq> [])
        (generatedSchedule \<lparr> generatedSchedule = generatedSchedule g @ [day],
        dayIndex = dayIndex g + 1, remaining_g = rem, totals_g = tot \<rparr>)"
      by simp
  qed
  then show ?thesis by (simp add: g(2,3) summaryOf_def Let_def)
qed

subsection \<open>The three errors and the result\<close>

lemma generateSchedule_range:
  assumes "mode st = Monthly" "endDate st < startDate st"
  shows "generateSchedule today skills st = Some (Inl InvalidRangeError)"
  using assms by (simp add: generateSchedule_unfold getDatesInRange_empty)

lemma generateSchedule_window:
  assumes "\<not> (mode st = Monthly \<and> endDate st < startDate st)"
    "timeToMinutes (endTime st) \<le> timeToMinutes (startTime st)"
  shows "generateSchedule today skills st = Some (Inl InvalidWindowError)"
proof -
  from assms(1) obtain d ds where
    ds: "(if mode st = Monthly then getDatesInRange (startDate st) (endDate st) else [today])
       = d # ds" by (rule dates_nonempty)
  have "forDates st skills (d # ds) (initGen skills) = Some (Inl InvalidWindowError)"
    by (simp add: processDay_window [OF assms(2)])
  then show ?thesis by (simp add: generateSchedule_unfold ds)
qed

lemma generateSchedule_empty:
  assumes "\<not> (mode st = Monthly \<and> endDate st < startDate st)"
    "timeToMinutes (startTime st) < timeToMinutes (endTime st)"
    "allocatableTimeForDay st \<le> 0 \<or> activeSkills skills (initialRemaining skills) = []"
  shows "generateSchedule today skills st = Some (Inl EmptyScheduleError)"
proof -
  from assms(1) obtain d ds where
    ds: "(if mode st = Monthly then getDatesInRange (startDate st) (endDate st) else [today])
       = d # ds" by (rule dates_nonempty)
  have "forDates st skills (d # ds) (initGen skills) = Some (Inr (initGen skills))"
  proof (cases "allocatableTimeForDay st \<le> 0")
    case True
    with assms(2) show ?thesis by (rule forDates_no_time)
  next
    case False
    with assms(3) have "activeSkills skills (remaining_g (initGen skills)) = []"
      by (simp add: initGen_def initialRemaining_def)
    with False assms(2) show ?thesis by (simp add: processDay_no_skill)
  qed
  then show ?thesis by (simp add: generateSchedule_unfold ds) (simp add: initGen_def)
qed

lemma generateSchedule_result:
  assumes "\<not> (mode st = Monthly \<and> endDate st < startDate st)"
    "timeToMinutes (startTime st) < timeToMinutes (endTime st)"
    "0 < allocatableTimeForDay st" "activeSkills skills (initialRemaining skills) \<noteq> []"
    "0 < workBlockMins st"
  shows "\<exists>sched summ. generateSchedule today skills st = Some (Inr (sched, summ))
           \<and> sched \<noteq> []"
proof -
  from assms(1) obtain d ds where
    ds: "(if mode st = Monthly then getDatesInRange (startDate st) (endDate st) else [today])
       = d # ds" by (rule dates_nonempty)
  have a: "activeSkills skills (remaining_g (initGen skills)) \<noteq> []"
    using assms(4) by (simp add: initGen_def initialRemaining_def)
  from processDay_pushes [OF assms(2,3) a assms(5)]
  obtain day rem tot where p:
    "processDay st skills (dayIndex (initGen skills)) d (remaining_g (initGen skills))
       (totals_g (initGen skills)) = Some (Pushed day rem tot)" by blast
  let ?g = "\<lparr> generatedSchedule = generatedSchedule (initGen skills) @ [day],
      dayIndex = dayIndex (initGen skills) + 1, remaining_g = rem, totals_g = tot \<rparr>"
  from forDates_window_ok [OF assms(5,2), of skills ds ?g]
  obtain g' where g': "forDates st skills ds ?g = Some (Inr g')" "generatedSchedule g' \<noteq> []"
    by auto
  from p g'(1) have "forDates st skills (d # ds) (initGen skills) = Some (Inr g')" by simp
  with g'(2) show ?thesis by (simp add: generateSchedule_unfold ds)
qed

subsection \<open>Why work blocks must have a positive length\<close>

lemma stuck_step:
  assumes "stuckInv s"
  shows "\<exists>t. loop_body stuck_settings 1020 scenarioA_skills s = Inr t \<and> stuckInv t"
proof -
  have q: "scenarioA_skills ! (queueIndex s mod length scenarioA_skills) = hd scenarioA_skills"
    by (simp add: scenarioA_skills_def)
  have l: "lunchHit (lunch stuck_settings) 540 = None"
    by (simp add: stuck_settings_def scenarioA_settings_def lunchHit_def)
  have g: "getOr0 (dailyAllocation s) (skill_id (hd scenarioA_skills)) = 60"
    using assms by (simp add: stuckInv_def getOr0_def scenarioA_skills_def)
  have w: "workBlockMins stuck_settings = 0" "breakMins stuck_settings = 0"
    by (simp_all add: stuck_settings_def)
  have c: "currentTime s = 540" using assms by (simp add: stuckInv_def)
  let ?t = "takeBreak stuck_settings 1020
      ((emitWork (hd scenarioA_skills) 60 0 (s \<lparr> queueIndex := queueIndex s + 1 \<rparr>))
         \<lparr> currentTime := currentTime s + 0 \<rparr>)"
  have "loop_body stuck_settings 1020 scenarioA_skills s = Inr ?t"
    unfolding loop_body_def Let_def by (simp add: l q g w c)
  moreover have "stuckInv ?t"
    using assms by (simp add: stuckInv_def takeBreak_def w scenarioA_skills_def)
  ultimately show ?thesis by blast
qed

lemma stuck_loop:
  assumes "stuckInv s"
  shows "while_loop stuck_settings 1020 scenarioA_skills s = None"
proof (cases "while_loop stuck_settings 1020 scenarioA_skills s")
  case None
  then show ?thesis .
next
  case (Some s')
  have False
  proof (rule while_loop_rule [OF Some, where I = stuckInv and Q = "\<lambda>_. False"])
    show "stuckInv s" by fact
  next
    fix s t
    assume "stuckInv s" "loop_body stuck_settings 1020 scenarioA_skills s = Inr t"
    with stuck_step [of s] show "stuckInv t" by auto
  next
    fix s t
    assume "stuckInv s" "loop_body stuck_settings 1020 scenarioA_skills s = Inl t"
    with stuck_step [of s] show False by auto
  next
    fix s
    assume "stuckInv s" "\<not> (currentTime s < 1020 \<and> 0 < totalAllocatedToday s)"
    then show False by (simp add: stuckInv_def)
  qed
  then show ?thesis ..
qed

text \<open>With work blocks of zero minutes the call does not return.\<close>

lemma zero_work_blocks_diverge:
  "generateSchedule 0 scenarioA_skills stuck_settings = None"
proof -
  have a: "activeSkills scenarioA_skills (remaining_g (initGen scenarioA_skills))
      = scenarioA_skills" by code_simp
  have q: "skillQueueFor 0 scenarioA_skills = scenarioA_skills" by code_simp
  have w: "timeToMinutes (endTime stuck_settings) = 1020"
    "timeToMinutes (startTime stuck_settings) = 540"
    by (simp_all add: stuck_settings_def scenarioA_settings_def timeToMinutes_def)
  have t: "allocatableTimeForDay stuck_settings = 60" by code_simp
  have tw: "totalWeightOf scenarioA_skills = 3" by code_simp
  have d: "dailyAllocationFor 60 scenarioA_skills (remaining_g (initGen scenarioA_skills))
      = [(''s1'', 60)]" by code_simp
  have "stuckInv (initLoop stuck_settings [(''s1'', 60)]
      (remaining_g (initGen scenarioA_skills)) (totals_g (initGen scenarioA_skills)))"
    by (simp add: stuckInv_def w mapValues_def)
  then have "while_loop stuck_settings 1020 scenarioA_skills
     (initLoop stuck_settings [(''s1'', 60)]
      (remaining_g (initGen scenarioA_skills)) (totals_g (initGen scenarioA_skills))) = None"
    by (rule stuck_loop)
  moreover have di: "dayIndex (initGen scenarioA_skills) = 0" by (simp add: initGen_def)
  ultimately
  have "processDay stuck_settings scenarioA_skills (dayIndex (initGen scenarioA_skills)) 0
      (remaining_g (initGen scenarioA_skills)) (totals_g (initGen scenarioA_skills)) = None"
    unfolding processDay_def a w t tw d by (simp add: q) (simp add: scenarioA_skills_def)
  then have "forDates stuck_settings scenarioA_skills [0] (initGen scenarioA_skills) = None"
    by simp
  moreover have "mode stuck_settings = Daily"
    by (simp add: stuck_settings_def scenarioA_settings_def)
  ultimately show ?thesis by (simp add: generateSchedule_unfold)
qed

section \<open>The claims\<close>

text \<open>
  Claim C1 (the blocks of every day partition the window) fails on the code: with work
  blocks of 45 minutes, breaks of 10 and lunch at 13:00, the call returns one day whose
  blocks do not partition 09:00 to 17:00.
\<close>

theorem lunch_overlap_breaks_partition:
  "map_option (map (\<lambda>d. partitionsWindow overlap_settings (blocks d)))
     (returned (generateSchedule 0 overlap_skills overlap_settings)) = Some [False]"
  by code_simp

text \<open>The ninth to twelfth blocks of that day: the work block 12:40 to 13:25 runs into the
  lunch block 13:00 to 14:00, and the buffer 13:35 to 14:00 lies inside lunch.\<close>

lemma lunch_overlap_blocks:
  "map_option (map (\<lambda>d. map (\<lambda>b. (b_type b, startMin b, endMin b)) (take 4 (drop 8 (blocks d)))))
     (returned (generateSchedule 0 overlap_skills overlap_settings))
   = Some [[(Work, 760, 805), (Lunch, 780, 840), (Break, 805, 815), (Buffer, 815, 840)]]"
  by code_simp

text \<open>Two more ways in which a day leaves the window: the clipped last work block is
  rounded up past a window end that is not a multiple of five minutes after the cursor,
  and a lunch that starts inside the window is emitted whole although it ends after it.\<close>

lemma clipped_block_overshoots_window:
  "map_option (map (\<lambda>d. map (\<lambda>b. (b_type b, b_start b, b_end b)) (drop 16 (blocks d))))
     (returned (generateSchedule 0 overlap_skills
        (overlap_settings \<lparr> workBlockMins := 50, lunch := None, endTime := HHMM 17 3 \<rparr>)))
   = Some [[(Work, HHMM 17 0, HHMM 17 5)]]"
  by code_simp

lemma lunch_runs_past_window:
  "map_option (map (\<lambda>d. map (\<lambda>b. (b_type b, b_start b, b_end b)) (drop 4 (blocks d))))
     (returned (generateSchedule 0 scenarioA_skills
        (scenarioC_settings \<lparr> lunch := Some \<lparr> lunch_start = HHMM 16 30, duration = 60 \<rparr> \<rparr>)))
   = Some [[(Lunch, HHMM 16 30, HHMM 17 30)]]"
  by code_simp

text \<open>
  Claim C2. Whenever \<open>generateSchedule\<close> returns, the minutes of the work blocks that
  carry a skill's id, summed over every day of the returned schedule, are at most
  \<open>estHours * 60\<close> plus 5 minutes of rounding slack. Skill ids are unique and
  \<open>estHours\<close> is not negative, as the data model has them.
\<close>

theorem work_within_estimate:
  assumes "generateSchedule today skills st = Some (Inr (sched, summ))"
    and "distinct (map skill_id skills)" and "s \<in> set skills" and "0 \<le> estHours s"
  shows "schedWork (skill_id s) sched \<le> estHours s * 60 + 5"
proof -
  let ?R = "getOr0 (newMap (map (\<lambda>s. (skill_id s, estHours s * 60)) skills))"
  from assms(1) obtain ds g where g: "forDates st skills ds (initGen skills) = Some (Inr g)"
    "sched = generatedSchedule g"
    by (rule generateSchedule_Inr)
  have "ledger ?R g"
  proof (rule forDates_rule [OF g(1), where P = "ledger ?R"])
    show "ledger ?R (initGen skills)" by (rule ledger_init)
  next
    fix g d day rem tot
    assume "ledger ?R g"
      "processDay st skills (dayIndex g) d (remaining_g g) (totals_g g)
         = Some (Pushed day rem tot)"
    then show "ledger ?R \<lparr> generatedSchedule = generatedSchedule g @ [day],
        dayIndex = dayIndex g + 1, remaining_g = rem, totals_g = tot \<rparr>"
      by (rule ledger_step)
  qed
  then have "getOr0 (remaining_g g) (skill_id s) = ?R (skill_id s) - schedWork (skill_id s) sched"
    and "schedWork (skill_id s) sched = 0 \<or> - 5 < getOr0 (remaining_g g) (skill_id s)"
    unfolding ledger_def g(2) by blast+
  moreover have "?R (skill_id s) = estHours s * 60"
    by (rule getOr0_newMap_distinct [OF assms(2,3)])
  ultimately show ?thesis using assms(4) by auto
qed

theorem work_within_estimate_witness:
  "generateSchedule 0 scenarioA_skills scenarioA_settings
     = Some (Inr ([\<lparr> date = 0, blocks = scenarioA_blocks \<rparr>], scenarioA_summary))
   \<and> distinct (map skill_id scenarioA_skills)
   \<and> hd scenarioA_skills \<in> set scenarioA_skills
   \<and> 0 \<le> estHours (hd scenarioA_skills)
   \<and> schedWork (skill_id (hd scenarioA_skills)) [\<lparr> date = 0, blocks = scenarioA_blocks \<rparr>]
       \<le> estHours (hd scenarioA_skills) * 60 + 5"
proof -
  have r: "generateSchedule 0 scenarioA_skills scenarioA_settings
     = Some (Inr ([\<lparr> date = 0, blocks = scenarioA_blocks \<rparr>], scenarioA_summary))"
    by code_simp
  have d: "distinct (map skill_id scenarioA_skills)" by (simp add: scenarioA_skills_def)
  have m: "hd scenarioA_skills \<in> set scenarioA_skills" by (simp add: scenarioA_skills_def)
  have e: "0 \<le> estHours (hd scenarioA_skills)" by (simp add: scenarioA_skills_def)
  from work_within_estimate [OF r d m e] r d m e show ?thesis by simp
qed

text \<open>
  Claim C3, as amended. In scenario A (one High skill of one hour, Daily mode with one daily
  hour, window 09:00 to 17:00, work blocks of 50 minutes, breaks of 10, no lunch) the call
  returns one day with four blocks: work 09:00 to 09:50, break 09:50 to 10:00, work 10:00
  to 10:10 and buffer 10:10 to 17:00; the summary gives the skill 60 minutes and 100
  percent.
\<close>

theorem scenarioA_result:
  "generateSchedule today scenarioA_skills scenarioA_settings
     = Some (Inr ([\<lparr> date = today, blocks = scenarioA_blocks \<rparr>], scenarioA_summary))"
  by code_simp

text \<open>Claim C3 as stated fails on scenario A: the day has a break block and a second
  work block.\<close>

theorem scenarioA_counterexample:
  "returned (generateSchedule 0 scenarioA_skills scenarioA_settings)
     = Some [\<lparr> date = 0, blocks = scenarioA_blocks \<rparr>]
   \<and> \<not> scenarioA_claim [\<lparr> date = 0, blocks = scenarioA_blocks \<rparr>]"
  by code_simp

text \<open>
  Claim C4. The daily allocation with which a day's loop starts gives each active skill
  (remaining minutes above zero) the target
  \<open>roundTo5 (min (allocatable * weight / totalWeight) remaining)\<close>, with the weights
  3, 2, 1 and the total weight of the active skills. Skill ids are unique.
\<close>

theorem daily_target_formula:
  assumes "distinct (map skill_id skills)" and "s \<in> set skills"
    and "0 < getOr0 rem (skill_id s)"
  shows "getOr0 (dailyAllocationFor allocatable (activeSkills skills rem) rem) (skill_id s)
         = dailyTarget_spec allocatable skills rem s"
proof -
  have d: "distinct (map skill_id (activeSkills skills rem))"
    unfolding activeSkills_def using assms(1) by (rule distinct_map_filter)
  have m: "s \<in> set (activeSkills skills rem)" using assms(2,3) by (simp add: activeSkills_def)
  have "getOr0 (dailyAllocationFor allocatable (activeSkills skills rem) rem) (skill_id s)
      = roundTo5 (min (allocatable * PRIORITY_WEIGHTS (priority s)
                         / totalWeightOf (activeSkills skills rem))
                      (getOr0 rem (skill_id s)))"
    unfolding dailyAllocationFor_def Let_def
    by (rule getOr0_newMap_distinct [OF d m])
  then show ?thesis
    by (simp add: dailyTarget_spec_def specWeight_eq totalWeightOf_def activeSkills_def)
qed

theorem daily_target_formula_witness:
  "distinct (map skill_id scenarioB_skills)
   \<and> scenarioB_skills ! 1 \<in> set scenarioB_skills
   \<and> 0 < getOr0 (initialRemaining scenarioB_skills) (skill_id (scenarioB_skills ! 1))
   \<and> getOr0 (dailyAllocationFor 240
          (activeSkills scenarioB_skills (initialRemaining scenarioB_skills))
          (initialRemaining scenarioB_skills)) (skill_id (scenarioB_skills ! 1)) = 60
   \<and> dailyTarget_spec 240 scenarioB_skills (initialRemaining scenarioB_skills)
         (scenarioB_skills ! 1) = 60"
proof -
  have d: "distinct (map skill_id scenarioB_skills)" by (simp add: scenarioB_skills_def)
  have m: "scenarioB_skills ! 1 \<in> set scenarioB_skills" by (simp add: scenarioB_skills_def)
  have p: "0 < getOr0 (initialRemaining scenarioB_skills) (skill_id (scenarioB_skills ! 1))"
    by code_simp
  have v: "dailyTarget_spec 240 scenarioB_skills (initialRemaining scenarioB_skills)
         (scenarioB_skills ! 1) = 60"
    by code_simp
  from daily_target_formula [OF d m p, of 240] d m p v show ?thesis by simp
qed

text \<open>
  Claim C5. \<open>generateSchedule\<close> throws \<open>InvalidRangeError\<close> in Monthly mode with
  \<open>endDate < startDate\<close>; otherwise it throws \<open>InvalidWindowError\<close> when
  \<open>endTime <= startTime\<close>; otherwise, with work blocks of positive length, it throws
  \<open>EmptyScheduleError\<close> when no day produces a block (the allocatable time of a day is
  not positive, or no skill has remaining minutes), and in every other case it returns
  the pair of a schedule, with at least one day and blocks in every day, and a summary
  with one entry per skill. The result type has no partial result.
\<close>

theorem all_or_nothing:
  "(mode st = Monthly \<and> endDate st < startDate st \<longrightarrow>
      generateSchedule today skills st = Some (Inl InvalidRangeError))
   \<and> (\<not> (mode st = Monthly \<and> endDate st < startDate st)
        \<and> timeToMinutes (endTime st) \<le> timeToMinutes (startTime st) \<longrightarrow>
      generateSchedule today skills st = Some (Inl InvalidWindowError))
   \<and> (\<not> (mode st = Monthly \<and> endDate st < startDate st)
        \<and> timeToMinutes (startTime st) < timeToMinutes (endTime st)
        \<and> 0 < workBlockMins st \<longrightarrow>
      (if allocatableTimeForDay st \<le> 0 \<or> activeSkills skills (initialRemaining skills) = []
       then generateSchedule today skills st = Some (Inl EmptyScheduleError)
       else (\<exists>sched summ. generateSchedule today skills st = Some (Inr (sched, summ))
               \<and> sched \<noteq> [] \<and> list_all (\<lambda>d. blocks d \<noteq> []) sched
               \<and> length summ = length skills)))"
proof (intro conjI impI)
  assume "mode st = Monthly \<and> endDate st < startDate st"
  then show "generateSchedule today skills st = Some (Inl InvalidRangeError)"
    by (simp add: generateSchedule_range)
next
  assume "\<not> (mode st = Monthly \<and> endDate st < startDate st)
        \<and> timeToMinutes (endTime st) \<le> timeToMinutes (startTime st)"
  then show "generateSchedule today skills st = Some (Inl InvalidWindowError)"
    using generateSchedule_window by blast
next
  assume a: "\<not> (mode st = Monthly \<and> endDate st < startDate st)
        \<and> timeToMinutes (startTime st) < timeToMinutes (endTime st)
        \<and> 0 < workBlockMins st"
  show "if allocatableTimeForDay st \<le> 0 \<or> activeSkills skills (initialRemaining skills) = []
       then generateSchedule today skills st = Some (Inl EmptyScheduleError)
       else (\<exists>sched summ. generateSchedule today skills st = Some (Inr (sched, summ))
               \<and> sched \<noteq> [] \<and> list_all (\<lambda>d. blocks d \<noteq> []) sched
               \<and> length summ = length skills)"
  proof (cases "allocatableTimeForDay st \<le> 0 \<or> activeSkills skills (initialRemaining skills) = []")
    case True
    with a generateSchedule_empty [of st skills today] show ?thesis by simp
  next
    case False
    with a generateSchedule_result [of st skills today]
    obtain sched summ where r: "generateSchedule today skills st = Some (Inr (sched, summ))"
      "sched \<noteq> []" by auto
    from generateSchedule_days_nonempty [OF r(1)] r False show ?thesis by simp
  qed
qed

theorem all_or_nothing_witness:
  "generateSchedule 0 scenarioA_skills (scenarioC_settings \<lparr> endDate := - 1 \<rparr>)
     = Some (Inl InvalidRangeError)
   \<and> generateSchedule 0 scenarioA_skills (scenarioA_settings \<lparr> endTime := HHMM 9 0 \<rparr>)
     = Some (Inl InvalidWindowError)
   \<and> generateSchedule 0 [] scenarioA_settings = Some (Inl EmptyScheduleError)
   \<and> (\<exists>sched summ. generateSchedule 0 scenarioA_skills scenarioA_settings
          = Some (Inr (sched, summ))
        \<and> sched \<noteq> [] \<and> list_all (\<lambda>d. blocks d \<noteq> []) sched
        \<and> length summ = length scenarioA_skills)"
proof -
  have 1: "mode (scenarioC_settings \<lparr> endDate := - 1 \<rparr>) = Monthly
      \<and> endDate (scenarioC_settings \<lparr> endDate := - 1 \<rparr>)
          < startDate (scenarioC_settings \<lparr> endDate := - 1 \<rparr>)"
    by (simp add: scenarioC_settings_def)
  have 2: "\<not> (mode (scenarioA_settings \<lparr> endTime := HHMM 9 0 \<rparr>) = Monthly
         \<and> endDate (scenarioA_settings \<lparr> endTime := HHMM 9 0 \<rparr>)
            < startDate (scenarioA_settings \<lparr> endTime := HHMM 9 0 \<rparr>))
      \<and> timeToMinutes (endTime (scenarioA_settings \<lparr> endTime := HHMM 9 0 \<rparr>))
         \<le> timeToMinutes (startTime (scenarioA_settings \<lparr> endTime := HHMM 9 0 \<rparr>))"
    by (simp add: scenarioA_settings_def timeToMinutes_def)
  have 3: "\<not> (mode scenarioA_settings = Monthly
         \<and> endDate scenarioA_settings < startDate scenarioA_settings)
      \<and> timeToMinutes (startTime scenarioA_settings) < timeToMinutes (endTime scenarioA_settings)
      \<and> 0 < workBlockMins scenarioA_settings"
    by (simp add: scenarioA_settings_def timeToMinutes_def)
  have 4: "allocatableTimeForDay scenarioA_settings \<le> 0
      \<or> activeSkills [] (initialRemaining []) = []"
    by (simp add: activeSkills_def)
  have 5: "\<not> (allocatableTimeForDay scenarioA_settings \<le> 0
      \<or> activeSkills scenarioA_skills (initialRemaining scenarioA_skills) = [])"
    by code_simp
  from all_or_nothing [of "scenarioC_settings \<lparr> endDate := - 1 \<rparr>" 0 scenarioA_skills] 1
  have a: "generateSchedule 0 scenarioA_skills (scenarioC_settings \<lparr> endDate := - 1 \<rparr>)
     = Some (Inl InvalidRangeError)" by blast
  from all_or_nothing [of "scenarioA_settings \<lparr> endTime := HHMM 9 0 \<rparr>" 0 scenarioA_skills] 2
  have b: "generateSchedule 0 scenarioA_skills (scenarioA_settings \<lparr> endTime := HHMM 9 0 \<rparr>)
     = Some (Inl InvalidWindowError)" by blast
  from all_or_nothing [of scenarioA_settings 0 "[]"] 3 4
  have c: "generateSchedule 0 [] scenarioA_settings = Some (Inl EmptyScheduleError)"
    by presburger
  from all_or_nothing [of scenarioA_settings 0 scenarioA_skills] 3 5
  have d: "\<exists>sched summ. generateSchedule 0 scenarioA_skills scenarioA_settings
          = Some (Inr (sched, summ))
        \<and> sched \<noteq> [] \<and> list_all (\<lambda>d. blocks d \<noteq> []) sched
        \<and> length summ = length scenarioA_skills"
    by presburger
  from a b c d show ?thesis by blast
qed

text \<open>
  Claim C6. The summary has one entry per input skill, in the input order, with the
  skill's id and name; its minutes are the minutes of the work blocks of the returned
  schedule that carry the skill's id (zero when there are none), and its percent is
  \<open>minutes / grandTotalMinutes * 100\<close>, or zero when the grand total of the scheduled
  work minutes is zero. Work blocks have a positive length, as the data model has it.
\<close>

theorem summary_entries:
  assumes "generateSchedule today skills st = Some (Inr (sched, summ))"
    and "0 < workBlockMins st"
  shows "map s_skillId summ = map skill_id skills
       \<and> map s_skillName summ = map skill_name skills
       \<and> map s_minutes summ = map (\<lambda>s. schedWork (skill_id s) sched) skills
       \<and> map percent summ =
           map (\<lambda>s. if schedAllWork sched = 0 then 0
                     else schedWork (skill_id s) sched / schedAllWork sched * 100) skills"
proof -
  from assms(1) obtain tot where t: "summ = summaryOf skills tot"
    "sum_list (mapValues tot) = schedAllWork sched"
    "\<forall>k. getOr0 tot k = schedWork k sched"
    "0 < workBlockMins st \<longrightarrow> schedPositive sched"
    by (rule generateSchedule_totals)
  from t(4) assms(2) have "0 \<le> schedAllWork sched" by (simp add: schedPositive_allWork)
  then have "(0 < schedAllWork sched) = (schedAllWork sched \<noteq> 0)" by auto
  then show ?thesis
    unfolding t(1) summaryOf_def Let_def t(2) by (simp add: comp_def t(3))
qed

theorem summary_entries_witness:
  "generateSchedule 0 scenarioB_skills scenarioB_settings
     = Some (Inr (scenarioB_schedule, scenarioB_summary))
   \<and> 0 < workBlockMins scenarioB_settings
   \<and> map s_skillId scenarioB_summary = map skill_id scenarioB_skills
   \<and> map s_skillName scenarioB_summary = map skill_name scenarioB_skills
   \<and> map s_minutes scenarioB_summary
       = map (\<lambda>s. schedWork (skill_id s) scenarioB_schedule) scenarioB_skills
   \<and> map percent scenarioB_summary =
       map (\<lambda>s. if schedAllWork scenarioB_schedule = 0 then 0
                 else schedWork (skill_id s) scenarioB_schedule
                        / schedAllWork scenarioB_schedule * 100) scenarioB_skills"
proof -
  have r: "generateSchedule 0 scenarioB_skills scenarioB_settings
     = Some (Inr (scenarioB_schedule, scenarioB_summary))"
    by code_simp
  have w: "0 < workBlockMins scenarioB_settings" by (simp add: scenarioB_settings_def)
  from summary_entries [OF r w] r w show ?thesis by blast
qed

text \<open>
  Claim C7. When a lunch is configured and its start lies in the window
  \<open>[windowStart, windowEnd)\<close>, every day of the returned schedule has exactly one lunch
  block; it starts at \<open>lunch.start\<close> and has \<open>lunch.duration\<close> minutes. The lunch start
  is well-formed and work blocks have a positive length, as the data model has them.
\<close>

theorem one_lunch_per_day:
  assumes "generateSchedule today skills st = Some (Inr (sched, summ))"
    and "lunch st = Some l" and "wellFormedTime (lunch_start l)"
    and "timeToMinutes (startTime st) \<le> timeToMinutes (lunch_start l)"
    and "timeToMinutes (lunch_start l) < timeToMinutes (endTime st)"
    and "0 < workBlockMins st"
  shows "list_all (\<lambda>d. length (lunchBlocks (blocks d)) = 1
           \<and> list_all (\<lambda>b. b_start b = lunch_start l \<and> minutes b = duration l)
                (lunchBlocks (blocks d))) sched"
proof -
  let ?P = "\<lambda>d. length (lunchBlocks (blocks d)) = 1
           \<and> list_all (\<lambda>b. b_start b = lunch_start l \<and> minutes b = duration l)
                (lunchBlocks (blocks d))"
  from assms(1) obtain ds g where g: "forDates st skills ds (initGen skills) = Some (Inr g)"
    "sched = generatedSchedule g"
    by (rule generateSchedule_Inr)
  have lb: "b_start (lunchBlock l) = lunch_start l"
    using minutesToTime_timeToMinutes [OF assms(3)] by simp
  show ?thesis unfolding g(2)
  proof (rule forDates_rule [OF g(1), where P = "\<lambda>g. list_all ?P (generatedSchedule g)"])
    show "list_all ?P (generatedSchedule (initGen skills))" by (simp add: initGen_def)
  next
    fix g :: gen_state and d day rem tot
    assume a: "list_all ?P (generatedSchedule g)"
      "processDay st skills (dayIndex g) d (remaining_g g) (totals_g g)
         = Some (Pushed day rem tot)"
    from processDay_lunch [OF a(2) assms(2,6,4,5)] lb have "?P day" by simp
    with a(1) show "list_all ?P (generatedSchedule \<lparr> generatedSchedule = generatedSchedule g @ [day],
        dayIndex = dayIndex g + 1, remaining_g = rem, totals_g = tot \<rparr>)"
      by simp
  qed
qed

theorem one_lunch_per_day_witness:
  "generateSchedule 0 scenarioA_skills scenarioC_settings
     = Some (Inr (scenarioC_schedule, scenarioA_summary))
   \<and> lunch scenarioC_settings = Some \<lparr> lunch_start = HHMM 13 0, duration = 60 \<rparr>
   \<and> wellFormedTime (HHMM 13 0)
   \<and> timeToMinutes (startTime scenarioC_settings) \<le> timeToMinutes (HHMM 13 0)
   \<and> timeToMinutes (HHMM 13 0) < timeToMinutes (endTime scenarioC_settings)
   \<and> 0 < workBlockMins scenarioC_settings
   \<and> list_all (\<lambda>d. length (lunchBlocks (blocks d)) = 1
           \<and> list_all (\<lambda>b. b_start b = HHMM 13 0 \<and> minutes b = 60)
                (lunchBlocks (blocks d))) scenarioC_schedule"
proof -
  have r: "generateSchedule 0 scenarioA_skills scenarioC_settings
     = Some (Inr (scenarioC_schedule, scenarioA_summary))"
    by code_simp
  have l: "lunch scenarioC_settings = Some \<lparr> lunch_start = HHMM 13 0, duration = 60 \<rparr>"
    by (simp add: scenarioC_settings_def)
  have t: "wellFormedTime (lunch_start \<lparr> lunch_start = HHMM 13 0, duration = 60 \<rparr>)"
    by (simp add: wellFormedTime_def)
  have a: "timeToMinutes (startTime scenarioC_settings)
      \<le> timeToMinutes (lunch_start \<lparr> lunch_start = HHMM 13 0, duration = 60 \<rparr>)"
    by (simp add: scenarioC_settings_def timeToMinutes_def)
  have b: "timeToMinutes (lunch_start \<lparr> lunch_start = HHMM 13 0, duration = 60 \<rparr>)
      < timeToMinutes (endTime scenarioC_settings)"
    by (simp add: scenarioC_settings_def timeToMinutes_def)
  have w: "0 < workBlockMins scenarioC_settings" by (simp add: scenarioC_settings_def)
  from one_lunch_per_day [OF r l t a b w] r l t a b w show ?thesis by simp
qed

text \<open>
  Claim C8. With work blocks of positive length (the data model has them of at least
  25 minutes), \<open>generateSchedule\<close> returns a result or throws one of its errors on every
  input: the date sequence is finite (\<open>getDatesInRange\<close> is a total function) and the
  loop of every day ends.
\<close>

theorem generateSchedule_terminates:
  assumes "0 < workBlockMins st"
  shows "\<exists>r. generateSchedule today skills st = Some r"
proof -
  let ?ds = "if mode st = Monthly then getDatesInRange (startDate st) (endDate st)
             else [today]"
  from forDates_returns [OF assms]
  obtain r where r: "forDates st skills ?ds (initGen skills) = Some r" by blast
  show ?thesis
  proof (cases r)
    case (Inl e)
    with r show ?thesis by (simp add: generateSchedule_unfold Let_def)
  next
    case (Inr g)
    with r show ?thesis by (simp add: generateSchedule_unfold Let_def)
  qed
qed

theorem generateSchedule_terminates_witness:
  "0 < workBlockMins scenarioC_settings
   \<and> (\<exists>r. generateSchedule 0 scenarioB_skills scenarioC_settings = Some r)"
proof -
  have w: "0 < workBlockMins scenarioC_settings" by (simp add: scenarioC_settings_def)
  from generateSchedule_terminates [OF w] w show ?thesis by blast
qed



text \<open>
  Claim C10. Every summary entry has minutes that are not negative; the percents add up
  to exactly 100 when the grand total of the scheduled work minutes is positive, and are
  all zero when it is zero (it is never negative). Skill ids are unique and work blocks
  have a positive length, as the data model has them.
\<close>

theorem summary_percent_total:
  assumes "generateSchedule today skills st = Some (Inr (sched, summ))"
    and "distinct (map skill_id skills)" and "0 < workBlockMins st"
  shows "list_all (\<lambda>e. 0 \<le> s_minutes e) summ
       \<and> 0 \<le> schedAllWork sched
       \<and> (if 0 < schedAllWork sched then sum_list (map percent summ) = 100
          else list_all (\<lambda>e. percent e = 0) summ)"
proof -
  from assms(1) obtain tot where t: "summ = summaryOf skills tot"
    "sum_list (mapValues tot) = schedAllWork sched"
    "\<forall>k. getOr0 tot k = schedWork k sched"
    "map fst tot = map fst (newMap (map (\<lambda>s. (skill_id s, 0::rat)) skills))"
    "0 < workBlockMins st \<longrightarrow> schedPositive sched"
    by (rule generateSchedule_totals)
  let ?G = "schedAllWork sched"
  from t(5) assms(3) have pos: "schedPositive sched" by simp
  have d: "distinct (map fst (map (\<lambda>s. (skill_id s, 0::rat)) skills))"
    using assms(2) by (simp add: comp_def)
  have keys: "map fst tot = map skill_id skills"
    unfolding t(4) newMap_distinct [OF d] by (simp add: comp_def)
  then have "distinct (map fst tot)" using assms(2) by simp
  from sum_getOr0_keys [OF this]
  have "sum_list (map (\<lambda>s. getOr0 tot (skill_id s)) skills) = ?G"
    unfolding keys t(2) by (simp add: comp_def)
  then have total: "sum_list (map (\<lambda>s. schedWork (skill_id s) sched) skills) = ?G"
    by (simp add: t(3))
  have 1: "list_all (\<lambda>e. 0 \<le> s_minutes e) summ"
    unfolding t(1) summaryOf_def Let_def
    by (simp add: list_all_iff t(3) schedPositive_work [OF pos])
  have 2: "0 \<le> ?G" using pos by (rule schedPositive_allWork)
  have 3: "sum_list (map percent summ) = 100" if g: "0 < ?G"
  proof -
    define c where "c = 100 / ?G"
    have p: "map percent summ = map (\<lambda>s. getOr0 tot (skill_id s) / ?G * 100) skills"
      unfolding t(1) summaryOf_def Let_def t(2) using g by (simp add: comp_def)
    have q: "(\<lambda>s. getOr0 tot (skill_id s) / ?G * 100)
        = (\<lambda>s. schedWork (skill_id s) sched * c)"
      by (rule ext) (simp add: c_def t(3))
    have "map percent summ = map (\<lambda>s. schedWork (skill_id s) sched * c) skills"
      using p by (simp only: q)
    then have "sum_list (map percent summ)
        = sum_list (map (\<lambda>s. schedWork (skill_id s) sched * c) skills)"
      by (rule arg_cong)
    also have "\<dots> = sum_list (map (\<lambda>s. schedWork (skill_id s) sched) skills) * c"
      by (rule sum_list_mult_const)
    also have "\<dots> = 100" using total g by (simp add: c_def)
    finally show ?thesis .
  qed
  have 4: "list_all (\<lambda>e. percent e = 0) summ" if g: "\<not> 0 < ?G"
    unfolding t(1) summaryOf_def Let_def t(2) using g by (simp add: list_all_iff)
  from 1 2 3 4 show ?thesis by simp
qed

theorem summary_percent_total_witness:
  "generateSchedule 0 scenarioB_skills scenarioB_settings
     = Some (Inr (scenarioB_schedule, scenarioB_summary))
   \<and> distinct (map skill_id scenarioB_skills)
   \<and> 0 < workBlockMins scenarioB_settings
   \<and> list_all (\<lambda>e. 0 \<le> s_minutes e) scenarioB_summary
   \<and> schedAllWork scenarioB_schedule = 240
   \<and> sum_list (map percent scenarioB_summary) = 100"
proof -
  have r: "generateSchedule 0 scenarioB_skills scenarioB_settings
     = Some (Inr (scenarioB_schedule, scenarioB_summary))"
    by code_simp
  have d: "distinct (map skill_id scenarioB_skills)" by (simp add: scenarioB_skills_def)
  have w: "0 < workBlockMins scenarioB_settings" by (simp add: scenarioB_settings_def)
  have g: "schedAllWork scenarioB_schedule = 240" by code_simp
  from summary_percent_total [OF r d w] r d w g show ?thesis by simp
qed

end
